theory Spec2Isabelle
  imports Main "HOL-Library.AList"
begin

section \<open>Values, errors and small string helpers\<close>

text \<open>
  The values an enum member can take. The source types them \<open>string | number\<close>; a
  \<open>Literal\<close> node of the syntax tree can also carry a boolean or \<open>null\<close>, which the
  source stores unchecked. A JavaScript number is an IEEE-754 double: \<open>Num n\<close> is the
  double whose value is the integer \<open>n\<close> (\<open>-0\<close> is not told apart from \<open>0\<close>: the code
  prints and increments both alike), and \<open>Dbl s\<close> is any other double, a fraction,
  \<open>NaN\<close> or an infinity, named by the text that \<open>String(v)\<close> gives it, such as \<open>1.5\<close>
  or \<open>NaN\<close>. Every integer of magnitude up to \<open>2^53\<close> is a double; beyond, the literals
  and results the code meets are doubles, and only those are meant by \<open>Num n\<close>.
\<close>

datatype js_value = Num int | Dbl string | Str string | Bool bool | Null

text \<open>\<open>typeof v === 'number'\<close>.\<close>

fun is_number :: "js_value \<Rightarrow> bool" where
  "is_number (Num n) = True"
| "is_number (Dbl s) = True"
| "is_number v = False"

text \<open>
  Everything the source can throw. \<open>Error\<close> and \<open>TypeError\<close> are the two exceptions the
  repository raises itself; \<open>ModuleNotFound\<close> is the host resolver's "module not
  found" failure; \<open>HostError\<close> stands for any other exception raised by a library the
  code calls (file system, parser, \<open>new Function\<close>, RegExp, MagicString, get-tsconfig).
\<close>

datatype tsx_error = Error string | TypeError string | ModuleNotFound string | HostError string

fun digit_char :: "nat \<Rightarrow> char" where
  "digit_char n = char_of (48 + n)"

function show_nat :: "nat \<Rightarrow> string" where
  "show_nat n = (if n < 10 then [digit_char n] else show_nat (n div 10) @ [digit_char (n mod 10)])"
  by pat_completeness auto
termination
  by (relation "measure id") auto

declare show_nat.simps [simp del]

definition show_int :: "int \<Rightarrow> string" where
  "show_int i = (if i < 0 then CHR ''-'' # show_nat (nat (- i)) else show_nat (nat i))"

text \<open>
  The double nearest to an integer, ties going to the even significand of 53 bits:
  what an integer result of double arithmetic is rounded to. Integers of magnitude
  up to \<open>2^53\<close> are doubles themselves. (Past the largest double, near \<open>1.8e308\<close>, the
  result would be an infinity; adding one to a double does not get there.)
\<close>

function bit_length :: "int \<Rightarrow> nat" where
  "bit_length n = (if n \<le> 0 then 0 else Suc (bit_length (n div 2)))"
  by pat_completeness auto
termination
  by (relation "measure nat") auto

declare bit_length.simps [simp del]

text \<open>\<open>round_magnitude m\<close> rounds \<open>m \<ge> 0\<close>: beyond 53 bits the lowest \<open>e\<close> bits are cut
  off, and the significand \<open>q\<close> goes up when they are more than half a unit, or
  exactly half and \<open>q\<close> is odd.\<close>

definition round_magnitude :: "int \<Rightarrow> int" where
  "round_magnitude m =
     (if m < 2 ^ 53 then m
      else let e = bit_length m - 53; q = m div 2 ^ e; r = m mod 2 ^ e; half = 2 ^ (e - 1) in
        (if half < r \<or> (r = half \<and> odd q) then q + 1 else q) * 2 ^ e)"

definition round_double :: "int \<Rightarrow> int" where
  "round_double i = (if i < 0 then - round_magnitude (- i) else round_magnitude i)"

text \<open>\<open>s.slice(a, b)\<close> for \<open>0 \<le> a \<le> b\<close>, \<open>s.startsWith(p)\<close>, \<open>s.endsWith(p)\<close> and
  \<open>s.includes(p)\<close>.\<close>

definition slice :: "string \<Rightarrow> nat \<Rightarrow> nat \<Rightarrow> string" where
  "slice s a b = take (b - a) (drop a s)"

definition startsWith :: "string \<Rightarrow> string \<Rightarrow> bool" where
  "startsWith s p = (take (length p) s = p)"

definition endsWith :: "string \<Rightarrow> string \<Rightarrow> bool" where
  "endsWith s p = (length p \<le> length s \<and> drop (length s - length p) s = p)"

fun str_includes :: "string \<Rightarrow> string \<Rightarrow> bool" where
  "str_includes [] p = (p = [])"
| "str_includes (c # cs) p = (startsWith (c # cs) p \<or> str_includes cs p)"

section \<open>The syntax tree the parser hands over\<close>

text \<open>
  The parts of oxc-parser's tree that \<open>const-enum-transformer.ts\<close> reads. A
  \<open>MemberExpression\<close> keeps its \<open>start\<close> and \<open>end\<close> offsets, because the source looks it up
  by its text \<open>content.slice(node.start, node.end)\<close>; \<open>OtherExpression\<close> carries the
  \<open>type\<close> of any other node.
\<close>

datatype expression =
    Literal js_value
  | BinaryExpression string expression expression
  | UnaryExpression string expression
  | MemberExpression nat nat
  | OtherExpression string

datatype member_key = Identifier string | LiteralKey js_value | OtherKey

datatype ts_enum_member = TSEnumMember member_key "expression option"

datatype ts_declaration =
    TSEnumDeclaration bool string "ts_enum_member list"
  | OtherDeclaration

datatype import_specifier =
    ImportNamespaceSpecifier string
  | ImportSpecifier string string
  | ImportDefaultSpecifier string

datatype statement =
    ExportNamedDeclaration "ts_declaration option"
  | ImportDeclaration string "import_specifier list"
  | OtherStatement

fun node_type :: "expression \<Rightarrow> string" where
  "node_type (Literal _) = ''Literal''"
| "node_type (BinaryExpression _ _ _) = ''BinaryExpression''"
| "node_type (UnaryExpression _ _) = ''UnaryExpression''"
| "node_type (MemberExpression _ _) = ''MemberExpression''"
| "node_type (OtherExpression t) = t"

section \<open>Enum data (\<open>const-enum-transformer.ts\<close>)\<close>

record EnumMember =
  name :: string
  val :: js_value

record EnumDeclaration =
  enum_id :: string
  members :: "EnumMember list"

text \<open>
  \<open>enum_defines\<close> (the source's \<open>defines\<close>) is a JavaScript object used as an
  insertion-ordered dictionary: an association list updated with \<open>AList.update\<close>.
  The source stores \<open>JSON.stringify(value)\<close> and reads it back only through
  \<open>JSON.parse\<close>; the model keeps the value that comes back, \<open>json_roundtrip value\<close>:
  the value itself, except that \<open>NaN\<close> and the infinities are written as \<open>null\<close>.
\<close>

definition non_finite :: "string \<Rightarrow> bool" where
  "non_finite s = (s = ''NaN'' \<or> s = ''Infinity'' \<or> s = ''-Infinity'')"

fun json_roundtrip :: "js_value \<Rightarrow> js_value" where
  "json_roundtrip (Dbl s) = (if non_finite s then Null else Dbl s)"
| "json_roundtrip v = v"

record EnumData =
  declarations :: "EnumDeclaration list"
  enum_defines :: "(string \<times> js_value) list"

text \<open>
  What oxc-parser's \<open>parseSync\<close> returns: the \<open>program\<close>, of which the code reads the
  \<open>body\<close>, and the \<open>errors\<close> found. A syntax error is reported in \<open>errors\<close>, beside the
  program the parser recovered (which is empty when it could not go on); it is not
  thrown, and the code never reads \<open>errors\<close>.
\<close>

record ParseResult =
  program :: "statement list"
  errors :: "string list"

text \<open>
  The libraries the enum code calls, as parameters: \<open>fs.existsSync\<close> (which never
  throws), \<open>fs.readFileSync\<close>, oxc-parser's \<open>parseSync(filename, content, lang, astType)\<close>
  (\<open>Inl\<close> is an exception of the call itself, not a syntax error of the text),
  \<open>new Function('return ' + exp)()\<close>, \<open>path.extname\<close>, \<open>path.resolve\<close> and the RegExp
  engine: \<open>regexExecAll source text\<close> is the list of \<open>(match.index, match[0])\<close> that the
  loop \<open>while ((match = pattern.exec(text)) !== null)\<close> sees for the global pattern
  \<open>new RegExp(source, 'g')\<close>, or the error the constructor throws. (A pattern that
  matches the empty string would keep that loop running; the patterns built from
  identifier names always consume a dot, and the parameter covers the runs that end.)
  The arithmetic and printing of doubles outside the integers of magnitude up to
  \<open>2^53\<close> is the host's as well: \<open>incrementDouble s\<close> is \<open>v + 1\<close> for the double \<open>v\<close>
  that prints as \<open>s\<close>, and \<open>numberToString n\<close> is \<open>String(n)\<close> for an integer double
  beyond \<open>2^53\<close>, where the shortest digits that identify the double are printed,
  in exponent form from \<open>1e21\<close> on.
\<close>

record enum_host =
  existsSync :: "string \<Rightarrow> bool"
  readFileSync :: "string \<Rightarrow> tsx_error + string"
  parseSync :: "string \<Rightarrow> string \<Rightarrow> string \<Rightarrow> string \<Rightarrow> tsx_error + ParseResult"
  evaluate :: "string \<Rightarrow> tsx_error + js_value"
  extname :: "string \<Rightarrow> string"
  pathResolve :: "string \<Rightarrow> string \<Rightarrow> string"
  regexExecAll :: "string \<Rightarrow> string \<Rightarrow> tsx_error + (nat \<times> string) list"
  incrementDouble :: "string \<Rightarrow> js_value"
  numberToString :: "int \<Rightarrow> string"

text \<open>JavaScript's \<open>String(v)\<close>, which a template string applies to an interpolated value.\<close>

fun js_to_string :: "enum_host \<Rightarrow> js_value \<Rightarrow> string" where
  "js_to_string h (Num n) = (if \<bar>n\<bar> \<le> 2 ^ 53 then show_int n else numberToString h n)"
| "js_to_string h (Dbl s) = s"
| "js_to_string h (Str s) = s"
| "js_to_string h (Bool b) = (if b then ''true'' else ''false'')"
| "js_to_string h Null = ''null''"

text \<open>\<open>v + 1\<close> in double arithmetic, which is what \<open>lastInitialized++\<close> stores for a
  number: exact on the integers from \<open>-2^53\<close> to \<open>2^53 - 1\<close>, rounded beyond.\<close>

fun js_increment :: "enum_host \<Rightarrow> js_value \<Rightarrow> js_value" where
  "js_increment h (Num n) = Num (round_double (n + 1))"
| "js_increment h (Dbl s) = incrementDouble h s"
| "js_increment h v = v"

subsection \<open>\<open>getLang\<close>, \<open>isDts\<close>, \<open>isTs\<close>\<close>

text \<open>A line terminator, which \<open>.\<close> of a regular expression does not match.\<close>

definition line_terminator :: "char \<Rightarrow> bool" where
  "line_terminator c = (c = CHR 0x0A \<or> c = CHR 0x0D)"

text \<open>\<open>(\?.*)?$\<close> at the start of \<open>r\<close>: nothing is left, or a \<open>?\<close> and then no line
  terminator up to the end.\<close>

definition query_tail :: "string \<Rightarrow> bool" where
  "query_tail r = (case r of [] \<Rightarrow> True | c # q \<Rightarrow> c = CHR ''?'' \<and> \<not> list_ex line_terminator q)"

text \<open>\<open>REGEX_DTS = /\.d\.[cm]?ts(\?.*)?$/\<close>, tried at every position of the name.\<close>

definition dts_at :: "string \<Rightarrow> bool" where
  "dts_at t = list_ex (\<lambda>p. startsWith t p \<and> query_tail (drop (length p) t))
     [''.d.ts'', ''.d.cts'', ''.d.mts'']"

fun isDts :: "string \<Rightarrow> bool" where
  "isDts [] = False"
| "isDts (c # cs) = (dts_at (c # cs) \<or> isDts cs)"

text \<open>\<open>.replace(/^\./, '')\<close> and \<open>.replace(/\?.*$/, '')\<close>: the latter cuts at the first
  \<open>?\<close> that no line terminator follows.\<close>

definition strip_dot :: "string \<Rightarrow> string" where
  "strip_dot s = (case s of [] \<Rightarrow> [] | c # cs \<Rightarrow> if c = CHR ''.'' then cs else c # cs)"

fun strip_query :: "string \<Rightarrow> string" where
  "strip_query [] = []"
| "strip_query (c # cs) =
     (if c = CHR ''?'' \<and> \<not> list_ex line_terminator cs then [] else c # strip_query cs)"

definition getLang :: "enum_host \<Rightarrow> string \<Rightarrow> string" where
  "getLang h filename =
     (if isDts filename then ''dts'' else strip_query (strip_dot (extname h filename)))"

text \<open>\<open>REGEX_LANG_TS = /^[cm]?tsx?$/\<close>.\<close>

definition isTs :: "string \<Rightarrow> bool" where
  "isTs lang = (lang \<noteq> [] \<and>
     (lang = ''dts'' \<or> lang \<in> set [''ts'', ''tsx'', ''cts'', ''ctsx'', ''mts'', ''mtsx'']))"

subsection \<open>\<open>parseConstEnumsFromAST\<close>\<close>

text \<open>The key of a member: \<open>e.id.name\<close> of an identifier, \<open>String(e.id.value)\<close> of a
  literal, the empty string otherwise.\<close>

fun member_key_text :: "enum_host \<Rightarrow> member_key \<Rightarrow> string" where
  "member_key_text h (Identifier n) = n"
| "member_key_text h (LiteralKey v) = js_to_string h v"
| "member_key_text h OtherKey = []"

text \<open>\<open>resolveValue\<close>, the operand of a binary expression: a literal, or a member
  expression whose source text is already a key of \<open>defines\<close>.\<close>

fun resolveValue :: "string \<Rightarrow> (string \<times> js_value) list \<Rightarrow> expression \<Rightarrow> tsx_error + js_value" where
  "resolveValue content defs (Literal v) = Inr v"
| "resolveValue content defs (MemberExpression s e) =
     (let exp = slice content s e in
      case map_of defs exp of
        None \<Rightarrow> Inl (Error (''Unresolved enum reference: '' @ exp))
      | Some v \<Rightarrow> Inr v)"
| "resolveValue content defs node = Inl (Error (''Unsupported operand type: '' @ node_type node))"

text \<open>The \<open>switch (init.type)\<close> of the source: the value of an initializer, or the
  error thrown.\<close>

fun initializer_value ::
  "enum_host \<Rightarrow> string \<Rightarrow> (string \<times> js_value) list \<Rightarrow> expression \<Rightarrow> tsx_error + js_value" where
  "initializer_value h content defs (Literal v) = Inr v"
| "initializer_value h content defs (BinaryExpression operator left right) =
     (case resolveValue content defs left of
        Inl e \<Rightarrow> Inl e
      | Inr leftValue \<Rightarrow>
          (case resolveValue content defs right of
             Inl e \<Rightarrow> Inl e
           | Inr rightValue \<Rightarrow>
               evaluate h (js_to_string h leftValue @ operator @ js_to_string h rightValue)))"
| "initializer_value h content defs (UnaryExpression operator (Literal v)) =
     evaluate h (operator @ js_to_string h v)"
| "initializer_value h content defs (UnaryExpression operator argument) =
     Inl (Error (''Unsupported unary argument type: '' @ node_type argument))"
| "initializer_value h content defs init =
     Inl (Error (''Unsupported initializer type: '' @ node_type init))"

text \<open>
  The state of the loop over the members of one enum: \<open>lastInitialized\<close> (\<open>None\<close> is
  \<open>undefined\<close>), the \<open>members\<close> pushed so far and the file's \<open>defines\<close>.
\<close>

type_synonym member_state = "js_value option \<times> EnumMember list \<times> (string \<times> js_value) list"

definition saveValue :: "string \<Rightarrow> string \<Rightarrow> js_value \<Rightarrow> member_state \<Rightarrow> member_state" where
  "saveValue key fullKey v st =
     (case st of (_, ms, defs) \<Rightarrow>
        (Some v, ms @ [\<lparr>name = key, val = v\<rparr>], AList.update fullKey (json_roundtrip v) defs))"

fun process_member ::
  "enum_host \<Rightarrow> string \<Rightarrow> string \<Rightarrow> member_state \<Rightarrow> ts_enum_member \<Rightarrow> tsx_error + member_state" where
  "process_member h content eid (lastInitialized, ms, defs) (TSEnumMember k init) =
     (let key = member_key_text h k; fullKey = eid @ ''.'' @ key in
      case init of
        Some i \<Rightarrow>
          (case initializer_value h content defs i of
             Inl e \<Rightarrow> Inl e
           | Inr v \<Rightarrow> Inr (saveValue key fullKey v (lastInitialized, ms, defs)))
      | None \<Rightarrow>
          (case lastInitialized of
             None \<Rightarrow> Inr (saveValue key fullKey (Num 0) (lastInitialized, ms, defs))
           | Some v \<Rightarrow>
               (if is_number v
                then Inr (saveValue key fullKey (js_increment h v) (lastInitialized, ms, defs))
                else Inl (TypeError (''Cannot auto-increment non-numeric enum value: ''
                                      @ js_to_string h v)))))"

fun process_members ::
  "enum_host \<Rightarrow> string \<Rightarrow> string \<Rightarrow> member_state \<Rightarrow> ts_enum_member list \<Rightarrow> tsx_error + member_state" where
  "process_members h content eid st [] = Inr st"
| "process_members h content eid st (e # es) =
     (case process_member h content eid st e of
        Inl err \<Rightarrow> Inl err
      | Inr st' \<Rightarrow> process_members h content eid st' es)"

text \<open>One statement of \<open>ast.body\<close>: only \<open>export const enum\<close> is looked at. The state
  is the \<open>declarations\<close> pushed so far and the file's \<open>defines\<close>.\<close>

fun process_statement ::
  "enum_host \<Rightarrow> string \<Rightarrow> EnumData \<Rightarrow> statement \<Rightarrow> tsx_error + EnumData" where
  "process_statement h content acc (ExportNamedDeclaration (Some (TSEnumDeclaration True eid es))) =
     (case process_members h content eid (None, [], enum_defines acc) es of
        Inl err \<Rightarrow> Inl err
      | Inr (_, ms, defs) \<Rightarrow>
          Inr \<lparr>declarations = declarations acc @ [\<lparr>enum_id = eid, members = ms\<rparr>],
               enum_defines = defs\<rparr>)"
| "process_statement h content acc node = Inr acc"

fun process_body ::
  "enum_host \<Rightarrow> string \<Rightarrow> EnumData \<Rightarrow> statement list \<Rightarrow> tsx_error + EnumData" where
  "process_body h content acc [] = Inr acc"
| "process_body h content acc (node # nodes) =
     (case process_statement h content acc node of
        Inl err \<Rightarrow> Inl err
      | Inr acc' \<Rightarrow> process_body h content acc' nodes)"

text \<open>The statements that the loop over \<open>ast.body\<close> looks at.\<close>

fun exported_const_enum :: "statement \<Rightarrow> bool" where
  "exported_const_enum (ExportNamedDeclaration (Some (TSEnumDeclaration c eid es))) = c"
| "exported_const_enum node = False"

definition empty_result :: EnumData where
  "empty_result = \<lparr>declarations = [], enum_defines = []\<rparr>"

text \<open>The \<open>lang\<close> and \<open>astType\<close> options both calls of the parser pass.\<close>

definition parse_lang :: "string \<Rightarrow> string" where
  "parse_lang lang = (if lang = ''dts'' then ''ts'' else lang)"

definition parse_astType :: "string \<Rightarrow> string" where
  "parse_astType lang = (if isTs lang then ''ts'' else ''js'')"

text \<open>
  The body of the \<open>try\<close> block of \<open>parseConstEnumsFromAST\<close>: the value it returns
  (each \<open>return\<close> of the block stores the same value in the cache first), or the
  exception that reaches the \<open>catch\<close>.
\<close>

definition extract_enums :: "enum_host \<Rightarrow> string \<Rightarrow> tsx_error + EnumData" where
  "extract_enums h filePath =
     (if \<not> existsSync h filePath then Inr empty_result
      else case readFileSync h filePath of
        Inl err \<Rightarrow> Inl err
      | Inr content \<Rightarrow>
          (let lang = getLang h filePath in
           if \<not> isTs lang then Inr empty_result
           else case parseSync h filePath content (parse_lang lang) (parse_astType lang) of
             Inl err \<Rightarrow> Inl err
           | Inr parseResult \<Rightarrow> process_body h content empty_result (program parseResult)))"

text \<open>
  \<open>constEnumCache\<close> is passed in and returned. A cached file is answered from the
  cache; otherwise the \<open>try\<close> block runs, the \<open>catch\<close> turns any exception into the empty
  \<open>result\<close>, and what is returned is cached.
\<close>

type_synonym enum_cache = "string \<rightharpoonup> EnumData"

definition parseConstEnumsFromAST ::
  "enum_host \<Rightarrow> enum_cache \<Rightarrow> string \<Rightarrow> EnumData \<times> enum_cache" where
  "parseConstEnumsFromAST h cache filePath =
     (case cache filePath of
        Some cached \<Rightarrow> (cached, cache)
      | None \<Rightarrow>
          (case extract_enums h filePath of
             Inl err \<Rightarrow> (empty_result, cache(filePath \<mapsto> empty_result))
           | Inr enumData \<Rightarrow> (enumData, cache(filePath \<mapsto> enumData))))"

section \<open>The dynamic tsconfig matcher (\<open>tsconfig.ts\<close>)\<close>

subsection \<open>\<open>path.dirname\<close>\<close>

text \<open>
  Node's \<open>path.posix.dirname\<close>, on which the upward walk and its termination rest. The
  loop \<open>for (i = path.length - 1; i >= 1; --i)\<close> looks for the last slash that is
  followed by a character other than a slash; \<open>dirname_end p i matchedSlash\<close> runs it
  from index \<open>i\<close> and returns \<open>end\<close>, or \<open>None\<close> for \<open>-1\<close>.
\<close>

fun dirname_end :: "string \<Rightarrow> nat \<Rightarrow> bool \<Rightarrow> nat option" where
  "dirname_end p 0 matchedSlash = None"
| "dirname_end p (Suc i) matchedSlash =
     (if p ! Suc i = CHR ''/''
      then (if \<not> matchedSlash then Some (Suc i) else dirname_end p i matchedSlash)
      else dirname_end p i False)"

definition dirname :: "string \<Rightarrow> string" where
  "dirname p =
     (if p = [] then ''.''
      else let hasRoot = (hd p = CHR ''/'') in
        case dirname_end p (length p - 1) True of
          None \<Rightarrow> (if hasRoot then ''/'' else ''.'')
        | Some e \<Rightarrow> (if hasRoot \<and> e = 1 then ''//'' else take e p))"

subsection \<open>\<open>path.join\<close>\<close>

text \<open>
  Node's \<open>path.posix.join\<close> of two arguments: the non-empty arguments are put
  together with a slash and the result is normalised. \<open>posix_normalize\<close> is
  \<open>path.posix.normalize\<close>: empty segments and \<open>.\<close> are dropped, \<open>..\<close> removes the segment
  before it (and stays only in a relative path that has none left), a leading and a
  trailing slash are kept. \<open>normalize_segments\<close> keeps the segments accepted so far in
  reverse.
\<close>

fun split_segments :: "string \<Rightarrow> string \<Rightarrow> string list" where
  "split_segments cur [] = [cur]"
| "split_segments cur (c # cs) =
     (if c = CHR ''/'' then cur # split_segments [] cs else split_segments (cur @ [c]) cs)"

fun normalize_segments :: "bool \<Rightarrow> string list \<Rightarrow> string list \<Rightarrow> string list" where
  "normalize_segments allowAboveRoot res [] = rev res"
| "normalize_segments allowAboveRoot res (seg # segs) =
     (if seg = [] \<or> seg = ''.'' then normalize_segments allowAboveRoot res segs
      else if seg = ''..''
      then (case res of
              lastSeg # below \<Rightarrow>
                (if lastSeg \<noteq> ''..'' then normalize_segments allowAboveRoot below segs
                 else normalize_segments allowAboveRoot (if allowAboveRoot then seg # res else res) segs)
            | [] \<Rightarrow> normalize_segments allowAboveRoot (if allowAboveRoot then [seg] else []) segs)
      else normalize_segments allowAboveRoot (seg # res) segs)"

fun join_segments :: "string list \<Rightarrow> string" where
  "join_segments [] = []"
| "join_segments [seg] = seg"
| "join_segments (seg # segs) = seg @ ''/'' @ join_segments segs"

definition posix_normalize :: "string \<Rightarrow> string" where
  "posix_normalize p =
     (if p = [] then ''.''
      else let isAbsolute = (hd p = CHR ''/'');
               trailingSeparator = (last p = CHR ''/'');
               body = join_segments (normalize_segments (\<not> isAbsolute) [] (split_segments [] p))
        in if body = []
           then (if isAbsolute then ''/'' else if trailingSeparator then ''./'' else ''.'')
           else (if isAbsolute then ''/'' else []) @ body @ (if trailingSeparator then ''/'' else []))"

definition posix_join :: "string \<Rightarrow> string \<Rightarrow> string" where
  "posix_join a b =
     (let joined = (if a = [] then b else if b = [] then a else a @ ''/'' @ b) in
      if joined = [] then ''.'' else posix_normalize joined)"

text \<open>
  An absolute path in normal form is \<open>abs_path segs\<close> for segments that are clean: not
  empty, not \<open>.\<close> or \<open>..\<close>, and without a slash.
\<close>

definition clean_segment :: "string \<Rightarrow> bool" where
  "clean_segment seg = (seg \<noteq> [] \<and> seg \<noteq> ''.'' \<and> seg \<noteq> ''..'' \<and> CHR ''/'' \<notin> set seg)"

fun abs_path :: "string list \<Rightarrow> string" where
  "abs_path [] = []"
| "abs_path (seg # segs) = CHR ''/'' # seg @ abs_path segs"


subsection \<open>Configurations, matchers and the cache\<close>

text \<open>The fields of a parsed \<open>tsconfig.json\<close> that the code or the matcher reads.\<close>

record TsConfigJson =
  baseUrl :: "string option"
  paths :: "(string \<times> string list) list option"
  allowJs :: "bool option"

record TsConfigResult =
  path :: string
  config :: TsConfigJson

text \<open>A paths matcher of get-tsconfig: \<open>(specifier: string) => string[]\<close>, which
  returns for every string.\<close>

type_synonym paths_matcher = "string \<Rightarrow> string list"

text \<open>\<open>tsconfigCache\<close>: a directory is absent, or maps to \<open>null\<close> (\<open>None\<close>, the "no
  config" entry), or to \<open>{ paths, allowJs }\<close>.\<close>

type_synonym tsconfig_cache = "string \<rightharpoonup> (paths_matcher \<times> bool) option"

text \<open>
  The libraries the matcher calls: \<open>fs.accessSync\<close> (returns, or throws),
  \<open>path.join\<close> (\<open>posix_join\<close> on a POSIX system), and get-tsconfig's \<open>parseTsconfig\<close>
  and \<open>createPathsMatcher\<close>, which returns \<open>null\<close> for a configuration without \<open>paths\<close>
  and \<open>baseUrl\<close>.
\<close>

record tsconfig_host =
  accessSync :: "string \<Rightarrow> tsx_error + unit"
  pathJoin :: "string \<Rightarrow> string \<Rightarrow> string"
  parseTsconfig :: "string \<Rightarrow> tsx_error + TsConfigJson"
  createPathsMatcher :: "TsConfigResult \<Rightarrow> tsx_error + paths_matcher option"

subsection \<open>The upward walk\<close>

lemma dirname_end_bounds:
  "dirname_end p n m = Some e \<Longrightarrow> 1 \<le> e \<and> e \<le> n \<and> (m \<longrightarrow> e < n)"
proof (induction p n m rule: dirname_end.induct)
  case (1 p matchedSlash)
  then show ?case by simp
next
  case (2 p i matchedSlash)
  then show ?case by (auto split: if_splits)
qed

lemma dirname_dot: "dirname ''.'' = ''.''"
  by (simp add: dirname_def)

lemma dirname_root: "dirname ''/'' = ''/''"
  by (simp add: dirname_def)

lemma dirname_fix_or_shorter:
  "dirname p \<noteq> p \<Longrightarrow> dirname (dirname p) = dirname p \<or> length (dirname p) < length p"
proof (cases "p = []")
  case True
  then show ?thesis by (simp add: dirname_def)
next
  case False
  show ?thesis
  proof (cases "dirname_end p (length p - 1) True")
    case None
    with False show ?thesis by (simp add: dirname_def dirname_dot dirname_root Let_def)
  next
    case (Some e)
    from dirname_end_bounds[OF Some] have b: "1 \<le> e" "e < length p - 1" by auto
    with False Some show ?thesis by (auto simp add: dirname_def Let_def)
  qed
qed

text \<open>
  The loop \<open>while (currentDir !== path.dirname(currentDir))\<close>: \<open>accessSync\<close> is tried on
  \<open>path.join(currentDir, 'tsconfig.json')\<close>; when it returns the walk stops with that
  path, when it throws the \<open>catch\<close> drops the exception and the walk goes on in the
  parent. The result is \<open>tsconfigPath\<close>, \<open>None\<close> for \<open>null\<close>.
\<close>

function find_tsconfig :: "tsconfig_host \<Rightarrow> string \<Rightarrow> string option" where
  "find_tsconfig h currentDir =
     (if currentDir \<noteq> dirname currentDir
      then (let potentialConfig = pathJoin h currentDir ''tsconfig.json'' in
            case accessSync h potentialConfig of
              Inr _ \<Rightarrow> Some potentialConfig
            | Inl _ \<Rightarrow> find_tsconfig h (dirname currentDir))
      else None)"
  by pat_completeness auto
termination
proof (relation "measure (\<lambda>(h, d). if dirname d = d then 0 else Suc (length d))")
  show "wf (measure (\<lambda>(h, d). if dirname d = d then 0 else Suc (length d)))"
    by simp
next
  fix h :: tsconfig_host and currentDir x2 a
  assume "currentDir \<noteq> dirname currentDir"
  then have "dirname currentDir \<noteq> currentDir" by simp
  from dirname_fix_or_shorter[OF this]
  show "((h, dirname currentDir), (h, currentDir))
          \<in> measure (\<lambda>(h, d). if dirname d = d then 0 else Suc (length d))"
    using \<open>dirname currentDir \<noteq> currentDir\<close> by auto
qed

declare find_tsconfig.simps [simp del]

text \<open>The directories the loop probes, in order: the same walk with every probe
  failing.\<close>

function walked_dirs :: "string \<Rightarrow> string list" where
  "walked_dirs currentDir =
     (if currentDir \<noteq> dirname currentDir
      then currentDir # walked_dirs (dirname currentDir)
      else [])"
  by pat_completeness auto
termination
proof (relation "measure (\<lambda>d. if dirname d = d then 0 else Suc (length d))")
  show "wf (measure (\<lambda>d. if dirname d = d then 0 else Suc (length d)))"
    by simp
next
  fix currentDir :: string
  assume "currentDir \<noteq> dirname currentDir"
  then have "dirname currentDir \<noteq> currentDir" by simp
  from dirname_fix_or_shorter[OF this]
  show "(dirname currentDir, currentDir)
          \<in> measure (\<lambda>d. if dirname d = d then 0 else Suc (length d))"
    using \<open>dirname currentDir \<noteq> currentDir\<close> by auto
qed

declare walked_dirs.simps [simp del]

subsection \<open>\<open>createDynamicPathsMatcher\<close>\<close>

text \<open>
  The second \<open>try\<close> block up to the test of \<open>pathsMatcher\<close>: the cache entry to store,
  or the exception of \<open>parseTsconfig\<close> or \<open>createPathsMatcher\<close>.
\<close>

definition load_matcher :: "tsconfig_host \<Rightarrow> string \<Rightarrow> tsx_error + (paths_matcher \<times> bool) option" where
  "load_matcher h tsconfigPath =
     (case parseTsconfig h tsconfigPath of
        Inl err \<Rightarrow> Inl err
      | Inr cfg \<Rightarrow>
          (let tsconfigResult = \<lparr>path = tsconfigPath, config = cfg\<rparr> in
           case createPathsMatcher h tsconfigResult of
             Inl err \<Rightarrow> Inl err
           | Inr pm \<Rightarrow>
               (let configAllowJs = (case allowJs cfg of None \<Rightarrow> False | Some b \<Rightarrow> b) in
                case pm of
                  Some pathsMatcher \<Rightarrow> Inr (Some (pathsMatcher, configAllowJs))
                | None \<Rightarrow> Inr None)))"

text \<open>
  The matcher that \<open>createDynamicPathsMatcher()\<close> returns. \<open>tsconfigPathsMatcher\<close> is
  the module's global matcher (\<open>None\<close> while undefined), \<open>fromFile\<close> is \<open>None\<close> for
  \<open>undefined\<close>; an empty string is falsy as well. The result is what the call returns
  (\<open>Inr\<close>) or the exception that leaves it (\<open>Inl\<close>), and the cache afterwards.
  \<open>static_fallback\<close> is \<open>tsconfigPathsMatcher?.(specifier) ?? []\<close>, and \<open>dynamic_lookup\<close>
  is the function from \<open>let searchDir\<close> on.
\<close>

definition static_fallback :: "paths_matcher option \<Rightarrow> string \<Rightarrow> string list" where
  "static_fallback tsconfigPathsMatcher specifier =
     (case tsconfigPathsMatcher of None \<Rightarrow> [] | Some m \<Rightarrow> m specifier)"

definition dynamic_lookup ::
  "tsconfig_host \<Rightarrow> tsconfig_cache \<Rightarrow> string \<Rightarrow> string
     \<Rightarrow> (tsx_error + string list) \<times> tsconfig_cache" where
  "dynamic_lookup h cache specifier fromFile =
     (let searchDir = dirname fromFile in
      case cache searchDir of
        Some cached \<Rightarrow>
          (case cached of
             Some (cachedPaths, _) \<Rightarrow> (Inr (cachedPaths specifier), cache)
           | None \<Rightarrow> (Inr [], cache))
      | None \<Rightarrow>
          (case find_tsconfig h searchDir of
             None \<Rightarrow> (Inr [], cache(searchDir \<mapsto> None))
           | Some tsconfigPath \<Rightarrow>
               (case load_matcher h tsconfigPath of
                  Inl err \<Rightarrow> (Inr [], cache(searchDir \<mapsto> None))
                | Inr None \<Rightarrow> (Inr [], cache(searchDir \<mapsto> None))
                | Inr (Some (pathsMatcher, configAllowJs)) \<Rightarrow>
                    (Inr (pathsMatcher specifier),
                     cache(searchDir \<mapsto> Some (pathsMatcher, configAllowJs))))))"

definition dynamicPathsMatcher ::
  "tsconfig_host \<Rightarrow> paths_matcher option \<Rightarrow> tsconfig_cache \<Rightarrow> string \<Rightarrow> string option
     \<Rightarrow> (tsx_error + string list) \<times> tsconfig_cache" where
  "dynamicPathsMatcher h tsconfigPathsMatcher cache specifier fromFile =
     (case fromFile of
        None \<Rightarrow> (Inr (static_fallback tsconfigPathsMatcher specifier), cache)
      | Some f \<Rightarrow>
          (if f = [] then (Inr (static_fallback tsconfigPathsMatcher specifier), cache)
           else dynamic_lookup h cache specifier f))"

section \<open>The resolution coordinator (\<open>module-resolve-filename/index.ts\<close>)\<close>

text \<open>
  What \<open>resolveTsPaths\<close> imports from \<open>path-utils.js\<close> and from Node: the test
  \<open>isFilePath\<close>, the constants \<open>fileUrlPrefix\<close> and \<open>nodeModulesPath\<close>, and
  \<open>fileURLToPath\<close>, which throws on a URL it cannot convert.
\<close>

record path_utils =
  isFilePath :: "string \<Rightarrow> bool"
  fileUrlPrefix :: string
  nodeModulesPath :: string
  fileURLToPath :: "string \<Rightarrow> tsx_error + string"

text \<open>A \<open>SimpleResolve\<close>: the resolved path, or the exception thrown.\<close>

type_synonym simple_resolve = "string \<Rightarrow> tsx_error + string"

text \<open>The loop \<open>for (const possiblePath of possiblePaths)\<close>: the first candidate that
  \<open>nextResolve\<close> resolves; a candidate that throws is dropped.\<close>

fun try_paths :: "simple_resolve \<Rightarrow> string list \<Rightarrow> string option" where
  "try_paths nextResolve [] = None"
| "try_paths nextResolve (possiblePath # rest) =
     (case nextResolve possiblePath of
        Inr resolved \<Rightarrow> Some resolved
      | Inl _ \<Rightarrow> try_paths nextResolve rest)"

text \<open>\<open>parent?.filename?.includes(nodeModulesPath)\<close>, with \<open>parent\<close> given by its
  \<open>filename\<close> (\<open>None\<close> when there is no parent or no filename).\<close>

definition in_node_modules :: "path_utils \<Rightarrow> string option \<Rightarrow> bool" where
  "in_node_modules u parent =
     (case parent of None \<Rightarrow> False | Some filename \<Rightarrow> str_includes filename (nodeModulesPath u))"

text \<open>The candidates of the alias step: the dynamic matcher when the parent has a
  (non-empty) filename, then the global matcher when nothing was found.\<close>

definition possible_paths ::
  "tsconfig_host \<Rightarrow> paths_matcher option \<Rightarrow> tsconfig_cache \<Rightarrow> string \<Rightarrow> string option
     \<Rightarrow> string list \<times> tsconfig_cache" where
  "possible_paths h tsconfigPathsMatcher cache request parent =
     (let (dynamicPaths, cache') =
        (if parent \<noteq> None \<and> parent \<noteq> Some []
         then (case dynamicPathsMatcher h tsconfigPathsMatcher cache request parent of
                 (Inr ps, c) \<Rightarrow> (ps, c)
               | (Inl _, c) \<Rightarrow> ([], c))
         else ([], cache))
      in (if dynamicPaths = []
          then (case tsconfigPathsMatcher of
                  Some staticMatcher \<Rightarrow> staticMatcher request
                | None \<Rightarrow> dynamicPaths)
          else dynamicPaths, cache'))"

definition resolveTsPaths ::
  "path_utils \<Rightarrow> tsconfig_host \<Rightarrow> paths_matcher option \<Rightarrow> tsconfig_cache \<Rightarrow> string
     \<Rightarrow> string option \<Rightarrow> simple_resolve \<Rightarrow> (tsx_error + string) \<times> tsconfig_cache" where
  "resolveTsPaths u h tsconfigPathsMatcher cache request0 parent nextResolve =
     (case (if startsWith request0 (fileUrlPrefix u) then fileURLToPath u request0 else Inr request0) of
        Inl err \<Rightarrow> (Inl err, cache)
      | Inr request \<Rightarrow>
          (if \<not> isFilePath u request \<and> \<not> in_node_modules u parent
           then (let (possiblePaths, cache') = possible_paths h tsconfigPathsMatcher cache request parent in
                 case try_paths nextResolve possiblePaths of
                   Some resolved \<Rightarrow> (Inr resolved, cache')
                 | None \<Rightarrow> (nextResolve request, cache'))
           else (nextResolve request, cache)))"

subsection \<open>\<open>createResolveFilename\<close>\<close>









section \<open>The inlining transform (\<open>transformConstEnum\<close>)\<close>

subsection \<open>\<open>JSON.stringify\<close> of a member value\<close>


definition backslash :: char where
  "backslash = CHR 0x5C"



subsection \<open>MagicString\<close>

text \<open>
  The part of magic-string the transform uses: the chunks of the original text, each
  with its \<open>start\<close>, \<open>end\<close>, current \<open>content\<close> and \<open>edited\<close> flag. \<open>intro\<close> and \<open>outro\<close> stay
  empty, since nothing is appended or prepended.
\<close>

datatype chunk = Chunk nat nat string bool

record MagicString =
  original :: string
  chunks :: "chunk list"


text \<open>\<open>_split(index)\<close>: nothing happens at a chunk boundary; the chunk that contains
  the index is cut in two, which throws when it was edited to a non-empty content.\<close>

fun split_at :: "nat \<Rightarrow> chunk list \<Rightarrow> tsx_error + chunk list" where
  "split_at i [] = Inr []"
| "split_at i (Chunk s e c ed # rest) =
     (if s < i \<and> i < e
      then (if ed \<and> c \<noteq> []
            then Inl (HostError ''Cannot split a chunk that has already been edited'')
            else if ed then Inr (Chunk s i [] True # Chunk i e [] True # rest)
            else Inr (Chunk s i (take (i - s) c) False # Chunk i e (drop (i - s) c) False # rest))
      else (case split_at i rest of
              Inl err \<Rightarrow> Inl err
            | Inr rest' \<Rightarrow> Inr (Chunk s e c ed # rest')))"

text \<open>After both splits the chunk that starts at \<open>start\<close> takes the new content and
  the chunks after it, up to \<open>end\<close>, are edited to the empty string.\<close>

fun edit_chunk :: "nat \<Rightarrow> nat \<Rightarrow> string \<Rightarrow> chunk \<Rightarrow> chunk" where
  "edit_chunk start end content (Chunk s e c ed) =
     (if s = start then Chunk s e content True
      else if start < s \<and> e \<le> end then Chunk s e [] True
      else Chunk s e c ed)"

definition update :: "MagicString \<Rightarrow> nat \<Rightarrow> nat \<Rightarrow> string \<Rightarrow> tsx_error + MagicString" where
  "update s start end content =
     (if end > length (original s) then Inl (HostError ''end is out of bounds'')
      else if start = end then Inl (HostError ''Cannot overwrite a zero-length range'')
      else case split_at start (chunks s) of
        Inl err \<Rightarrow> Inl err
      | Inr cs \<Rightarrow>
          (case split_at end cs of
             Inl err \<Rightarrow> Inl err
           | Inr cs' \<Rightarrow> Inr (s\<lparr>chunks := map (edit_chunk start end content) cs'\<rparr>)))"



subsection \<open>\<open>resolveEnumPath\<close>\<close>


subsection \<open>The rewriting loops\<close>















subsection \<open>\<open>transformConstEnum\<close>\<close>




section \<open>A worked example\<close>

text \<open>
  A small project, used to run the definitions: \<open>/p/lib.ts\<close> declares
  \<open>export const enum Color { Red, Green = 5, Blue }\<close> and \<open>/p/main.ts\<close> imports it and
  logs \<open>Color.Red\<close>. The host below gives the parser's results for these texts, an
  engine for the patterns the transform builds from names made of word characters (a
  literal text between two \<open>\b\<close>), and \<open>path.resolve\<close> from an absolute directory.
\<close>

definition posix_resolve :: "string \<Rightarrow> string \<Rightarrow> string" where
  "posix_resolve dir p =
     CHR ''/'' # join_segments (normalize_segments False []
        (split_segments [] (if startsWith p ''/'' then p else dir @ ''/'' @ p)))"

definition quote :: char where "quote = CHR 0x27"
definition newline :: char where "newline = CHR 0x0A"

definition lib_source :: string where
  "lib_source = ''export const enum Color { Red, Green = 5, Blue }'' @ [newline]"

definition color_members :: "ts_enum_member list" where
  "color_members =
     [TSEnumMember (Identifier ''Red'') None,
      TSEnumMember (Identifier ''Green'') (Some (Literal (Num 5))),
      TSEnumMember (Identifier ''Blue'') None]"

definition lib_body :: "statement list" where
  "lib_body = [ExportNamedDeclaration (Some (TSEnumDeclaration True ''Color'' color_members))]"

definition color_data :: EnumData where
  "color_data =
     \<lparr>declarations =
        [\<lparr>enum_id = ''Color'',
          members = [\<lparr>name = ''Red'', val = Num 0\<rparr>, \<lparr>name = ''Green'', val = Num 5\<rparr>,
                     \<lparr>name = ''Blue'', val = Num 6\<rparr>]\<rparr>],
      enum_defines = [(''Color.Red'', Num 0), (''Color.Green'', Num 5), (''Color.Blue'', Num 6)]\<rparr>"

definition word_char :: "char \<Rightarrow> bool" where
  "word_char c = (let n = (of_char c :: nat) in
     (48 \<le> n \<and> n \<le> 57) \<or> (65 \<le> n \<and> n \<le> 90) \<or> n = 95 \<or> (97 \<le> n \<and> n \<le> 122))"

definition boundary :: "char option \<Rightarrow> char option \<Rightarrow> bool" where
  "boundary a b =
     ((case a of None \<Rightarrow> False | Some c \<Rightarrow> word_char c) \<noteq> (case b of None \<Rightarrow> False | Some c \<Rightarrow> word_char c))"

fun pattern_literal :: "string \<Rightarrow> string option" where
  "pattern_literal (a # b # rest) =
     (if a = backslash \<and> b = CHR ''b'' \<and> rest = [] then Some []
      else if a = backslash \<and> b = CHR ''.'' then map_option ((#) CHR ''.'') (pattern_literal rest)
      else if word_char a then map_option ((#) a) (pattern_literal (b # rest))
      else None)"
| "pattern_literal rest = None"

function scan_matches :: "string \<Rightarrow> nat \<Rightarrow> char option \<Rightarrow> string \<Rightarrow> (nat \<times> string) list" where
  "scan_matches lit i prev rest =
     (if rest = [] then []
      else if lit \<noteq> [] \<and> startsWith rest lit \<and> boundary prev (Some (hd lit))
              \<and> boundary (Some (last lit)) (case drop (length lit) rest of [] \<Rightarrow> None | c # _ \<Rightarrow> Some c)
      then (i, lit) # scan_matches lit (i + length lit) (Some (last lit)) (drop (length lit) rest)
      else scan_matches lit (Suc i) (Some (hd rest)) (tl rest))"
  by pat_completeness auto
termination
  by (relation "measure (\<lambda>(lit, i, prev, rest). length rest)") auto

declare scan_matches.simps [simp del]

definition literal_regex :: "string \<Rightarrow> string \<Rightarrow> tsx_error + (nat \<times> string) list" where
  "literal_regex source text =
     (case source of
        a # b # rest \<Rightarrow>
          (if a = backslash \<and> b = CHR ''b''
           then (case pattern_literal rest of
                   Some lit \<Rightarrow> Inr (scan_matches lit 0 None text)
                 | None \<Rightarrow> Inl (HostError ''pattern outside the example engine''))
           else Inl (HostError ''pattern outside the example engine''))
      | _ \<Rightarrow> Inl (HostError ''pattern outside the example engine''))"

definition import_line :: string where
  "import_line = ''import { Color } from '' @ [quote] @ ''./lib'' @ [quote, newline]"

definition main_source :: string where
  "main_source = import_line @ ''console.log(Color.Red)'' @ [newline]"

definition main_once :: string where
  "main_once = import_line @ ''console.log(0 /* Color.Red */)'' @ [newline]"

definition main_twice :: string where
  "main_twice = import_line @ ''console.log(0 /* 0 /* Color.Red */ */)'' @ [newline]"

definition main_body :: "statement list" where
  "main_body = [ImportDeclaration ''./lib'' [ImportSpecifier ''Color'' ''Color''], OtherStatement]"

text \<open>
  More declaring files: \<open>/p/bad.ts\<close> declares \<open>A { X = 1 }\<close> and then
  \<open>B { Y = f() }\<close>, whose initializer is a call; \<open>/p/str.ts\<close> declares \<open>A { X = 1 }\<close> and
  then \<open>S { P = 'a', Q }\<close>; \<open>/p/ref.ts\<close> declares \<open>R { U = Other.V | 1 }\<close>, a reference
  to a member that is not defined; \<open>/p/big.ts\<close> declares
  \<open>Big { A = 9007199254740992, B }\<close>, whose first value is \<open>2^53\<close>; \<open>/p/E.A.ts\<close> declares
  \<open>E { A = 7 }\<close>; and \<open>/p/locked.ts\<close> exists but cannot be read. \<open>/p/half.ts\<close> has a
  syntax error: it declares \<open>A { X = 1 }\<close> and then has \<open>const c;\<close>, a constant without
  initializer, which the parser reports and recovers from, so that its program holds
  both statements. \<open>bad_main_source\<close> imports \<open>A\<close> from \<open>./bad\<close>; \<open>half_main_source\<close>
  imports \<open>A\<close> from \<open>./half\<close>, logs \<open>A.X\<close> and has the same syntax error; \<open>use_source\<close>
  imports \<open>E\<close> from \<open>./E.A\<close> and \<open>Color\<close> from \<open>./lib\<close> and uses neither. A text that is
  not listed, which no run of the example meets, is answered with an empty program
  and an error.
\<close>

definition enum_A :: statement where
  "enum_A = ExportNamedDeclaration (Some (TSEnumDeclaration True ''A''
     [TSEnumMember (Identifier ''X'') (Some (Literal (Num 1)))]))"

definition bad_source :: string where
  "bad_source = ''export const enum A { X = 1 }'' @ [newline]
     @ ''export const enum B { Y = f() }'' @ [newline]"

definition bad_body :: "statement list" where
  "bad_body = [enum_A, ExportNamedDeclaration (Some (TSEnumDeclaration True ''B''
     [TSEnumMember (Identifier ''Y'') (Some (OtherExpression ''CallExpression''))]))]"

definition str_source :: string where
  "str_source = ''export const enum A { X = 1 }'' @ [newline]
     @ ''export const enum S { P = '' @ [quote] @ ''a'' @ [quote] @ '', Q }'' @ [newline]"

definition str_body :: "statement list" where
  "str_body = [enum_A, ExportNamedDeclaration (Some (TSEnumDeclaration True ''S''
     [TSEnumMember (Identifier ''P'') (Some (Literal (Str ''a''))),
      TSEnumMember (Identifier ''Q'') None]))]"

definition bad_main_source :: string where
  "bad_main_source = ''import { A } from '' @ [quote] @ ''./bad'' @ [quote, newline]
     @ ''console.log(A.X)'' @ [newline]"

definition bad_main_body :: "statement list" where
  "bad_main_body = [ImportDeclaration ''./bad'' [ImportSpecifier ''A'' ''A''], OtherStatement]"

definition big_source :: string where
  "big_source = ''export const enum Big { A = 9007199254740992, B }'' @ [newline]"

definition big_body :: "statement list" where
  "big_body = [ExportNamedDeclaration (Some (TSEnumDeclaration True ''Big''
     [TSEnumMember (Identifier ''A'') (Some (Literal (Num 9007199254740992))),
      TSEnumMember (Identifier ''B'') None]))]"

definition half_source :: string where
  "half_source = ''export const enum A { X = 1 }'' @ [newline] @ ''const c;'' @ [newline]"

definition half_body :: "statement list" where
  "half_body = [enum_A, OtherStatement]"

definition half_main_source :: string where
  "half_main_source = ''import { A } from '' @ [quote] @ ''./half'' @ [quote, newline]
     @ ''console.log(A.X)'' @ [newline] @ ''const c;'' @ [newline]"


definition half_main_body :: "statement list" where
  "half_main_body =
     [ImportDeclaration ''./half'' [ImportSpecifier ''A'' ''A''], OtherStatement, OtherStatement]"

definition enum_E_source :: string where
  "enum_E_source = ''export const enum E { A = 7 }'' @ [newline]"

definition enum_E_body :: "statement list" where
  "enum_E_body = [ExportNamedDeclaration (Some (TSEnumDeclaration True ''E''
     [TSEnumMember (Identifier ''A'') (Some (Literal (Num 7)))]))]"

definition use_source :: string where
  "use_source = ''import { E } from '' @ [quote] @ ''./E.A'' @ [quote, newline] @ import_line"

definition use_once :: string where
  "use_once = ''import { E } from '' @ [quote] @ ''./7 /* E.A */'' @ [quote, newline] @ import_line"

definition use_body :: "statement list" where
  "use_body = [ImportDeclaration ''./E.A'' [ImportSpecifier ''E'' ''E''],
               ImportDeclaration ''./lib'' [ImportSpecifier ''Color'' ''Color'']]"

definition use_once_body :: "statement list" where
  "use_once_body = [ImportDeclaration ''./7 /* E.A */'' [ImportSpecifier ''E'' ''E''],
                    ImportDeclaration ''./lib'' [ImportSpecifier ''Color'' ''Color'']]"

definition ref_source :: string where
  "ref_source = ''export const enum R { U = Other.V | 1 }'' @ [newline]"

definition ref_body :: "statement list" where
  "ref_body = [ExportNamedDeclaration (Some (TSEnumDeclaration True ''R''
     [TSEnumMember (Identifier ''U'')
        (Some (BinaryExpression ''|'' (MemberExpression 26 33) (Literal (Num 1))))]))]"

definition demo_files :: "(string \<times> string) list" where
  "demo_files = [(''/p/lib.ts'', lib_source), (''/p/bad.ts'', bad_source),
     (''/p/str.ts'', str_source), (''/p/ref.ts'', ref_source),
     (''/p/big.ts'', big_source), (''/p/half.ts'', half_source), (''/p/E.A.ts'', enum_E_source)]"

definition parsed :: "statement list \<Rightarrow> ParseResult" where
  "parsed body = \<lparr>program = body, errors = []\<rparr>"

definition demo_trees :: "(string \<times> ParseResult) list" where
  "demo_trees = [(lib_source, parsed lib_body), (bad_source, parsed bad_body),
     (str_source, parsed str_body), (ref_source, parsed ref_body), (big_source, parsed big_body),
     (enum_E_source, parsed enum_E_body),
     (half_source, \<lparr>program = half_body, errors = [''Missing initializer in const declaration'']\<rparr>),
     (half_main_source,
        \<lparr>program = half_main_body, errors = [''Missing initializer in const declaration'']\<rparr>),
     (main_source, parsed main_body), (main_once, parsed main_body), (main_twice, parsed main_body),
     (bad_main_source, parsed bad_main_body),
     (use_source, parsed use_body), (use_once, parsed use_once_body)]"

text \<open>The example has no initializer that is evaluated, no fraction and no number
  beyond \<open>2^53\<close>, so \<open>evaluate\<close> and the two number functions of the host are never
  asked; the first answers with an exception, the others with \<open>NaN\<close>.\<close>

definition demo_host :: enum_host where
  "demo_host =
     \<lparr>existsSync = (\<lambda>p. map_of demo_files p \<noteq> None \<or> p = ''/p/locked.ts''),
      readFileSync = (\<lambda>p. case map_of demo_files p of
         Some content \<Rightarrow> Inr content
       | None \<Rightarrow> Inl (HostError (if p = ''/p/locked.ts'' then ''EACCES'' else ''ENOENT''))),
      parseSync = (\<lambda>filename content lang astType. case map_of demo_trees content of
         Some result \<Rightarrow> Inr result
       | None \<Rightarrow> Inr \<lparr>program = [], errors = [''Unexpected token'']\<rparr>),
      evaluate = (\<lambda>exp. Inl (HostError ''not evaluated'')),
      extname = (\<lambda>p. if endsWith p ''.ts'' then ''.ts'' else []),
      pathResolve = posix_resolve,
      regexExecAll = literal_regex,
      incrementDouble = (\<lambda>s. Dbl ''NaN''),
      numberToString = (\<lambda>n. ''NaN'')\<rparr>"


section \<open>Enum extraction: auto-increment\<close>

lemma round_double_limit: "round_double (2 ^ 53) = 2 ^ 53"
  by code_simp

lemma round_double_small: "\<bar>i\<bar> < 2 ^ 53 \<Longrightarrow> round_double i = i"
  by (auto simp: round_double_def round_magnitude_def)

lemma round_double_exact:
  assumes "- (2 ^ 53) \<le> n" "n < 2 ^ 53"
  shows "round_double (n + 1) = n + 1"
proof (cases "n + 1 = 2 ^ 53")
  case True
  then show ?thesis using round_double_limit by simp
next
  case False
  with assms have "\<bar>n + 1\<bar> < 2 ^ 53" by simp
  then show ?thesis by (rule round_double_small)
qed

lemma process_member_shape:
  assumes "process_member h c eid (l, ms0, d0) (TSEnumMember k init) = Inr (l1, ms1, d1)"
  shows "\<exists>m. ms1 = ms0 @ [m] \<and> l1 = Some (val m) \<and> name m = member_key_text h k \<and>
           (init = None \<longrightarrow> (l = None \<and> val m = Num 0)
               \<or> (\<exists>v. l = Some v \<and> is_number v \<and> val m = js_increment h v))"
  using assms
  by (auto simp: saveValue_def Let_def split: option.splits sum.splits if_splits)

lemma process_members_shape:
  "process_members h c eid (l, ms0, d0) es = Inr (l', ms, d') \<Longrightarrow>
     \<exists>new. ms = ms0 @ new \<and> length new = length es \<and>
       (\<forall>i k. i < length es \<and> es ! i = TSEnumMember k None \<longrightarrow>
          (if i = 0 then (l = None \<and> val (new ! 0) = Num 0)
                        \<or> (\<exists>v. l = Some v \<and> is_number v \<and> val (new ! 0) = js_increment h v)
           else is_number (val (new ! (i - 1))) \<and> val (new ! i) = js_increment h (val (new ! (i - 1)))))"
proof (induction es arbitrary: l ms0 d0)
  case Nil
  then show ?case by simp
next
  case (Cons e es)
  obtain k init where e: "e = TSEnumMember k init" by (cases e)
  from Cons.prems obtain st1 where
    s1: "process_member h c eid (l, ms0, d0) e = Inr st1" and
    s2: "process_members h c eid st1 es = Inr (l', ms, d')"
    by (auto split: sum.splits)
  obtain l1 ms1 d1 where st1: "st1 = (l1, ms1, d1)" by (cases st1)
  from process_member_shape[OF s1[unfolded e st1]] obtain m where
    m: "ms1 = ms0 @ [m]" "l1 = Some (val m)"
       "init = None \<longrightarrow> (l = None \<and> val m = Num 0)
           \<or> (\<exists>v. l = Some v \<and> is_number v \<and> val m = js_increment h v)"
    by blast
  from Cons.IH[OF s2[unfolded st1]] obtain new where
    n: "ms = ms1 @ new" "length new = length es"
       "\<forall>i k. i < length es \<and> es ! i = TSEnumMember k None \<longrightarrow>
          (if i = 0 then (l1 = None \<and> val (new ! 0) = Num 0)
                        \<or> (\<exists>v. l1 = Some v \<and> is_number v \<and> val (new ! 0) = js_increment h v)
           else is_number (val (new ! (i - 1))) \<and> val (new ! i) = js_increment h (val (new ! (i - 1))))"
    by blast
  have "\<forall>i k. i < length (e # es) \<and> (e # es) ! i = TSEnumMember k None \<longrightarrow>
          (if i = 0 then (l = None \<and> val ((m # new) ! 0) = Num 0)
                        \<or> (\<exists>v. l = Some v \<and> is_number v \<and> val ((m # new) ! 0) = js_increment h v)
           else is_number (val ((m # new) ! (i - 1)))
                \<and> val ((m # new) ! i) = js_increment h (val ((m # new) ! (i - 1))))"
  proof (intro allI impI)
    fix i k
    assume a: "i < length (e # es) \<and> (e # es) ! i = TSEnumMember k None"
    show "if i = 0 then (l = None \<and> val ((m # new) ! 0) = Num 0)
                        \<or> (\<exists>v. l = Some v \<and> is_number v \<and> val ((m # new) ! 0) = js_increment h v)
           else is_number (val ((m # new) ! (i - 1)))
                \<and> val ((m # new) ! i) = js_increment h (val ((m # new) ! (i - 1)))"
    proof (cases i)
      case 0
      with a e m(3) show ?thesis by simp
    next
      case (Suc j)
      with a have j: "j < length es \<and> es ! j = TSEnumMember k None" by simp
      from n(3) j have
        "if j = 0 then (l1 = None \<and> val (new ! 0) = Num 0)
                        \<or> (\<exists>v. l1 = Some v \<and> is_number v \<and> val (new ! 0) = js_increment h v)
           else is_number (val (new ! (j - 1))) \<and> val (new ! j) = js_increment h (val (new ! (j - 1)))"
        by blast
      with Suc m(2) show ?thesis by (cases j) auto
    qed
  qed
  with m(1) n(1,2) show ?case by (intro exI[of _ "m # new"]) simp
qed

lemma process_members_append:
  "process_members h c eid st (xs @ ys) =
     (case process_members h c eid st xs of
        Inl e \<Rightarrow> Inl e
      | Inr st' \<Rightarrow> process_members h c eid st' ys)"
  by (induction xs arbitrary: st) (auto split: sum.splits)

lemma process_body_append:
  "process_body h c acc (xs @ ys) =
     (case process_body h c acc xs of
        Inl e \<Rightarrow> Inl e
      | Inr acc' \<Rightarrow> process_body h c acc' ys)"
  by (induction xs arbitrary: acc) (auto split: sum.splits)

lemma process_statement_declarations:
  assumes "process_statement h c acc node = Inr acc'"
  shows "\<exists>new. declarations acc' = declarations acc @ new
           \<and> length new = (if exported_const_enum node then 1 else 0)"
proof (cases "exported_const_enum node")
  case True
  then obtain eid es where "node = ExportNamedDeclaration (Some (TSEnumDeclaration True eid es))"
    by (cases node rule: exported_const_enum.cases) auto
  with assms True show ?thesis by (auto split: sum.splits)
next
  case False
  then have "process_statement h c acc node = Inr acc"
    by (cases node rule: exported_const_enum.cases) (auto split: bool.splits)
  with assms False show ?thesis by simp
qed

lemma process_body_declarations:
  "process_body h c acc nodes = Inr d \<Longrightarrow>
     \<exists>new. declarations d = declarations acc @ new
        \<and> length new = length (filter exported_const_enum nodes)"
proof (induction nodes arbitrary: acc)
  case Nil
  then show ?case by simp
next
  case (Cons node nodes)
  from Cons.prems obtain acc1 where
    s: "process_statement h c acc node = Inr acc1" "process_body h c acc1 nodes = Inr d"
    by (auto split: sum.splits)
  from process_statement_declarations[OF s(1)] obtain n1 where
    n1: "declarations acc1 = declarations acc @ n1" "length n1 = (if exported_const_enum node then 1 else 0)"
    by blast
  from Cons.IH[OF s(2)] obtain n2 where
    n2: "declarations d = declarations acc1 @ n2" "length n2 = length (filter exported_const_enum nodes)"
    by blast
  from n1 n2 show ?case by (intro exI[of _ "n1 @ n2"]) simp
qed

lemma enum_in_body:
  assumes "process_body h c empty_result
             (pre @ ExportNamedDeclaration (Some (TSEnumDeclaration True eid es)) # post) = Inr d"
  shows "\<exists>acc l ms defs. process_body h c empty_result pre = Inr acc
           \<and> process_members h c eid (None, [], enum_defines acc) es = Inr (l, ms, defs)
           \<and> declarations d ! length (filter exported_const_enum pre) = \<lparr>enum_id = eid, members = ms\<rparr>"
proof -
  from assms obtain acc where
    a: "process_body h c empty_result pre = Inr acc"
       "process_body h c acc (ExportNamedDeclaration (Some (TSEnumDeclaration True eid es)) # post) = Inr d"
    by (auto simp: process_body_append split: sum.splits)
  from a(2) obtain l ms defs where
    m: "process_members h c eid (None, [], enum_defines acc) es = Inr (l, ms, defs)"
       "process_body h c \<lparr>declarations = declarations acc @ [\<lparr>enum_id = eid, members = ms\<rparr>],
                          enum_defines = defs\<rparr> post = Inr d"
    by (auto split: sum.splits)
  from process_body_declarations[OF a(1)] obtain n1 where
    n1: "declarations acc = n1" "length n1 = length (filter exported_const_enum pre)"
    by (auto simp: empty_result_def)
  from process_body_declarations[OF m(2)] obtain n2 where
    n2: "declarations d = (declarations acc @ [\<lparr>enum_id = eid, members = ms\<rparr>]) @ n2"
    by auto
  from n1 n2 have "declarations d ! length (filter exported_const_enum pre) = \<lparr>enum_id = eid, members = ms\<rparr>"
    by (simp add: nth_append)
  with a(1) m(1) show ?thesis by blast
qed

lemma extract_enums_body:
  assumes "existsSync h f" "readFileSync h f = Inr content" "isTs (getLang h f)"
   "parseSync h f content (parse_lang (getLang h f)) (parse_astType (getLang h f))
      = Inr \<lparr>program = body, errors = errs\<rparr>"
  shows "extract_enums h f = process_body h content empty_result body"
  using assms by (simp add: extract_enums_def Let_def)

lemma extract_cached:
  assumes "cache f = None" "extract_enums h f = Inr d"
  shows "parseConstEnumsFromAST h cache f = (d, cache(f \<mapsto> d))"
  using assms by (simp add: parseConstEnumsFromAST_def)

lemma color_body_value:
  "process_body h content empty_result
      [ExportNamedDeclaration (Some (TSEnumDeclaration True ''Color''
         [TSEnumMember (Identifier ''Red'') None,
          TSEnumMember (Identifier ''Green'') (Some (Literal (Num 5))),
          TSEnumMember (Identifier ''Blue'') None]))]
     = Inr \<lparr>declarations =
        [\<lparr>enum_id = ''Color'',
          members = [\<lparr>name = ''Red'', val = Num 0\<rparr>, \<lparr>name = ''Green'', val = Num 5\<rparr>,
                     \<lparr>name = ''Blue'', val = Num 6\<rparr>]\<rparr>],
      enum_defines = [(''Color.Red'', Num 0), (''Color.Green'', Num 5), (''Color.Blue'', Num 6)]\<rparr>"
  by (simp add: empty_result_def saveValue_def Let_def round_double_small)


lemma demo_lang: "getLang demo_host ''/p/bad.ts'' = ''ts''" "getLang demo_host ''/p/str.ts'' = ''ts''"
  "getLang demo_host ''/p/lib.ts'' = ''ts''" "getLang demo_host ''/p/half.ts'' = ''ts''"
  "getLang demo_host ''/p/ref.ts'' = ''ts''" "getLang demo_host ''/p/main.ts'' = ''ts''"
  "getLang demo_host ''/p/use.ts'' = ''ts''"
  by (simp_all add: getLang_def demo_host_def endsWith_def strip_dot_def dts_at_def startsWith_def query_tail_def)

lemma isTs_ts: "isTs ''ts''"
  by (simp add: isTs_def)

lemma demo_lib:
  "existsSync demo_host ''/p/lib.ts''" "readFileSync demo_host ''/p/lib.ts'' = Inr lib_source"
  "parseSync demo_host ''/p/lib.ts'' lib_source l a = Inr \<lparr>program = lib_body, errors = []\<rparr>"
  by (simp_all add: demo_host_def demo_files_def demo_trees_def parsed_def)


text \<open>
  C4, as stated, fails in its general part: \<open>/p/big.ts\<close> declares
  \<open>Big { A = 9007199254740992, B }\<close>, and \<open>B\<close>, which has no initializer, does not get
  the previous value plus one: \<open>lastInitialized++\<close> adds in double arithmetic, where
  \<open>2^53 + 1\<close> is rounded back to \<open>2^53\<close>.
\<close>

theorem C4_counterexample:
  "fst (parseConstEnumsFromAST demo_host Map.empty ''/p/big.ts'')
     = \<lparr>declarations =
          [\<lparr>enum_id = ''Big'',
            members = [\<lparr>name = ''A'', val = Num 9007199254740992\<rparr>,
                       \<lparr>name = ''B'', val = Num 9007199254740992\<rparr>]\<rparr>],
        enum_defines = [(''Big.A'', Num 9007199254740992), (''Big.B'', Num 9007199254740992)]\<rparr>"
  by code_simp


text \<open>
  C4, amended. For a file that is not cached yet, exists, is read and is a
  TypeScript file: when the parser's program is the declaration
  \<open>export const enum Color { Red, Green = 5, Blue }\<close>, \<open>parseConstEnumsFromAST\<close> returns,
  and caches, the members \<open>Red = 0\<close>, \<open>Green = 5\<close>, \<open>Blue = 6\<close> (and the matching
  \<open>defines\<close>). In general, when the extraction of the file succeeds, the entry
  returned and cached holds, for every exported const enum of the program at its
  place among them, as many members as declared; a first member with no initializer
  has the value \<open>0\<close>; and every later member with no initializer follows a number and
  has that number incremented as a double, which is the number plus one whenever it
  is an integer from \<open>-2^53\<close> to \<open>2^53 - 1\<close>.
\<close>

theorem C4_auto_increment:
  assumes "cache f = None" "existsSync h f" "readFileSync h f = Inr content" "isTs (getLang h f)"
    and "parseSync h f content (parse_lang (getLang h f)) (parse_astType (getLang h f))
           = Inr \<lparr>program = body, errors = errs\<rparr>"
  shows "(body = [ExportNamedDeclaration (Some (TSEnumDeclaration True ''Color''
                    [TSEnumMember (Identifier ''Red'') None,
                     TSEnumMember (Identifier ''Green'') (Some (Literal (Num 5))),
                     TSEnumMember (Identifier ''Blue'') None]))]
          \<longrightarrow> fst (parseConstEnumsFromAST h cache f)
                = \<lparr>declarations =
                     [\<lparr>enum_id = ''Color'',
                       members = [\<lparr>name = ''Red'', val = Num 0\<rparr>, \<lparr>name = ''Green'', val = Num 5\<rparr>,
                                  \<lparr>name = ''Blue'', val = Num 6\<rparr>]\<rparr>],
                   enum_defines = [(''Color.Red'', Num 0), (''Color.Green'', Num 5),
                                   (''Color.Blue'', Num 6)]\<rparr>
              \<and> snd (parseConstEnumsFromAST h cache f) f = Some (fst (parseConstEnumsFromAST h cache f)))
       \<and> (\<forall>pre eid es post d.
             body = pre @ ExportNamedDeclaration (Some (TSEnumDeclaration True eid es)) # post
             \<and> extract_enums h f = Inr d
           \<longrightarrow> parseConstEnumsFromAST h cache f = (d, cache(f \<mapsto> d))
               \<and> (\<exists>ms. declarations d ! length (filter exported_const_enum pre)
                           = \<lparr>enum_id = eid, members = ms\<rparr>
                      \<and> length ms = length es
                      \<and> (\<forall>k. es \<noteq> [] \<and> hd es = TSEnumMember k None \<longrightarrow> val (hd ms) = Num 0)
                      \<and> (\<forall>i k. Suc i < length es \<and> es ! Suc i = TSEnumMember k None \<longrightarrow>
                            is_number (val (ms ! i))
                            \<and> val (ms ! Suc i) = js_increment h (val (ms ! i))
                            \<and> (\<forall>n. val (ms ! i) = Num n \<and> - (2 ^ 53) \<le> n \<and> n < 2 ^ 53
                                  \<longrightarrow> val (ms ! Suc i) = Num (n + 1)))))"
proof (intro conjI allI impI)
  assume b: "body = [ExportNamedDeclaration (Some (TSEnumDeclaration True ''Color''
                    [TSEnumMember (Identifier ''Red'') None,
                     TSEnumMember (Identifier ''Green'') (Some (Literal (Num 5))),
                     TSEnumMember (Identifier ''Blue'') None]))]"
  have "extract_enums h f = process_body h content empty_result body"
    by (rule extract_enums_body[OF assms(2,3,4,5)])
  with b have e: "extract_enums h f = Inr \<lparr>declarations =
                     [\<lparr>enum_id = ''Color'',
                       members = [\<lparr>name = ''Red'', val = Num 0\<rparr>, \<lparr>name = ''Green'', val = Num 5\<rparr>,
                                  \<lparr>name = ''Blue'', val = Num 6\<rparr>]\<rparr>],
                   enum_defines = [(''Color.Red'', Num 0), (''Color.Green'', Num 5),
                                   (''Color.Blue'', Num 6)]\<rparr>"
    by (simp only: color_body_value)
  note r = extract_cached[of cache f h, OF assms(1) e]
  show "fst (parseConstEnumsFromAST h cache f)
                = \<lparr>declarations =
                     [\<lparr>enum_id = ''Color'',
                       members = [\<lparr>name = ''Red'', val = Num 0\<rparr>, \<lparr>name = ''Green'', val = Num 5\<rparr>,
                                  \<lparr>name = ''Blue'', val = Num 6\<rparr>]\<rparr>],
                   enum_defines = [(''Color.Red'', Num 0), (''Color.Green'', Num 5),
                                   (''Color.Blue'', Num 6)]\<rparr>"
    by (simp only: r fst_conv)
  show "snd (parseConstEnumsFromAST h cache f) f = Some (fst (parseConstEnumsFromAST h cache f))"
    by (simp only: r fst_conv snd_conv fun_upd_same)
next
  fix pre eid es post d
  assume a: "body = pre @ ExportNamedDeclaration (Some (TSEnumDeclaration True eid es)) # post
             \<and> extract_enums h f = Inr d"
  then show "parseConstEnumsFromAST h cache f = (d, cache(f \<mapsto> d))"
    using extract_cached[of cache f h d] assms(1) by blast
  have eb: "extract_enums h f = process_body h content empty_result body"
    by (rule extract_enums_body[OF assms(2,3,4,5)])
  from a have bd: "body = pre @ ExportNamedDeclaration (Some (TSEnumDeclaration True eid es)) # post"
    and ex: "extract_enums h f = Inr d" by blast+
  from eb ex have "process_body h content empty_result body = Inr d" by simp
  then have "process_body h content empty_result
      (pre @ ExportNamedDeclaration (Some (TSEnumDeclaration True eid es)) # post) = Inr d"
    unfolding bd .
  from enum_in_body[OF this] obtain acc l ms defs where
    both: "process_body h content empty_result pre = Inr acc
       \<and> process_members h content eid (None, [], enum_defines acc) es = Inr (l, ms, defs)
       \<and> declarations d ! length (filter exported_const_enum pre) = \<lparr>enum_id = eid, members = ms\<rparr>"
    by iprover
  from both have
    run: "process_members h content eid (None, [], enum_defines acc) es = Inr (l, ms, defs)" and
    at: "declarations d ! length (filter exported_const_enum pre) = \<lparr>enum_id = eid, members = ms\<rparr>"
    by iprover+
  from process_members_shape[OF run] have
    len: "length ms = length es" and
    sh: "\<forall>i k. i < length es \<and> es ! i = TSEnumMember k None \<longrightarrow>
          (if i = 0 then ((None :: js_value option) = None \<and> val (ms ! 0) = Num 0)
                        \<or> (\<exists>v. None = Some v \<and> is_number v \<and> val (ms ! 0) = js_increment h v)
           else is_number (val (ms ! (i - 1))) \<and> val (ms ! i) = js_increment h (val (ms ! (i - 1))))"
    by auto
  have first: "\<forall>k. es \<noteq> [] \<and> hd es = TSEnumMember k None \<longrightarrow> val (hd ms) = Num 0"
  proof (intro allI impI)
    fix k assume f: "es \<noteq> [] \<and> hd es = TSEnumMember k None"
    then have "0 < length es \<and> es ! 0 = TSEnumMember k None" by (cases es) auto
    with sh have "val (ms ! 0) = Num 0" by fastforce
    moreover from f len have "ms \<noteq> []" by auto
    ultimately show "val (hd ms) = Num 0" by (simp add: hd_conv_nth)
  qed
  have later: "\<forall>i k. Suc i < length es \<and> es ! Suc i = TSEnumMember k None \<longrightarrow>
                  is_number (val (ms ! i))
                  \<and> val (ms ! Suc i) = js_increment h (val (ms ! i))
                  \<and> (\<forall>n. val (ms ! i) = Num n \<and> - (2 ^ 53) \<le> n \<and> n < 2 ^ 53
                         \<longrightarrow> val (ms ! Suc i) = Num (n + 1))"
  proof (intro allI impI)
    fix i k assume s: "Suc i < length es \<and> es ! Suc i = TSEnumMember k None"
    with sh have
      "if Suc i = 0 then ((None :: js_value option) = None \<and> val (ms ! 0) = Num 0)
                        \<or> (\<exists>v. None = Some v \<and> is_number v \<and> val (ms ! 0) = js_increment h v)
       else is_number (val (ms ! (Suc i - 1))) \<and> val (ms ! Suc i) = js_increment h (val (ms ! (Suc i - 1)))"
      by blast
    then have j: "is_number (val (ms ! i))" "val (ms ! Suc i) = js_increment h (val (ms ! i))"
      by simp_all
    have "\<forall>n. val (ms ! i) = Num n \<and> - (2 ^ 53) \<le> n \<and> n < 2 ^ 53 \<longrightarrow> val (ms ! Suc i) = Num (n + 1)"
      using j(2) by (auto simp: round_double_exact)
    with j show "is_number (val (ms ! i))
                  \<and> val (ms ! Suc i) = js_increment h (val (ms ! i))
                  \<and> (\<forall>n. val (ms ! i) = Num n \<and> - (2 ^ 53) \<le> n \<and> n < 2 ^ 53
                         \<longrightarrow> val (ms ! Suc i) = Num (n + 1))"
      by blast
  qed
  from at len first later
  show "\<exists>ms. declarations d ! length (filter exported_const_enum pre)
                           = \<lparr>enum_id = eid, members = ms\<rparr>
                      \<and> length ms = length es
                      \<and> (\<forall>k. es \<noteq> [] \<and> hd es = TSEnumMember k None \<longrightarrow> val (hd ms) = Num 0)
                      \<and> (\<forall>i k. Suc i < length es \<and> es ! Suc i = TSEnumMember k None \<longrightarrow>
                            is_number (val (ms ! i))
                            \<and> val (ms ! Suc i) = js_increment h (val (ms ! i))
                            \<and> (\<forall>n. val (ms ! i) = Num n \<and> - (2 ^ 53) \<le> n \<and> n < 2 ^ 53
                                  \<longrightarrow> val (ms ! Suc i) = Num (n + 1)))"
    by blast
qed

theorem C4_auto_increment_witness:
  "existsSync demo_host ''/p/lib.ts'' \<and> readFileSync demo_host ''/p/lib.ts'' = Inr lib_source
   \<and> fst (parseConstEnumsFromAST demo_host Map.empty ''/p/lib.ts'') = color_data
   \<and> snd (parseConstEnumsFromAST demo_host Map.empty ''/p/lib.ts'') ''/p/lib.ts'' = Some color_data
   \<and> val (members (declarations color_data ! 0) ! Suc 1) = Num (5 + 1)"
proof -
  have f: "Map.empty ''/p/lib.ts'' = (None :: EnumData option)" "existsSync demo_host ''/p/lib.ts''"
    "readFileSync demo_host ''/p/lib.ts'' = Inr lib_source" "isTs (getLang demo_host ''/p/lib.ts'')"
    by (simp_all add: demo_lang isTs_ts demo_lib)
  have p: "parseSync demo_host ''/p/lib.ts'' lib_source (parse_lang (getLang demo_host ''/p/lib.ts''))
             (parse_astType (getLang demo_host ''/p/lib.ts'')) = Inr \<lparr>program = lib_body, errors = []\<rparr>"
    by (rule demo_lib)
  note t = C4_auto_increment[OF f p]
  have b: "lib_body = [ExportNamedDeclaration (Some (TSEnumDeclaration True ''Color''
                    [TSEnumMember (Identifier ''Red'') None,
                     TSEnumMember (Identifier ''Green'') (Some (Literal (Num 5))),
                     TSEnumMember (Identifier ''Blue'') None]))]"
    by (simp add: lib_body_def color_members_def)
  from t[THEN conjunct1] b have
    r1: "fst (parseConstEnumsFromAST demo_host Map.empty ''/p/lib.ts'') = color_data"
    and r2: "snd (parseConstEnumsFromAST demo_host Map.empty ''/p/lib.ts'') ''/p/lib.ts''
               = Some (fst (parseConstEnumsFromAST demo_host Map.empty ''/p/lib.ts''))"
    by (simp_all add: color_data_def)
  have e: "extract_enums demo_host ''/p/lib.ts'' = Inr color_data"
    using extract_enums_body[OF f(2,3,4) p] b color_body_value[of demo_host lib_source]
    by (simp add: color_data_def)
  have b2: "lib_body = [] @ ExportNamedDeclaration (Some (TSEnumDeclaration True ''Color'' color_members)) # []"
    by (simp add: lib_body_def)
  from t[THEN conjunct2, rule_format, of "[]" "''Color''" color_members "[]" color_data] b2 e
  obtain ms where ms: "declarations color_data ! length (filter exported_const_enum []) = \<lparr>enum_id = ''Color'', members = ms\<rparr>"
    "\<forall>i k. Suc i < length color_members \<and> color_members ! Suc i = TSEnumMember k None \<longrightarrow>
        is_number (val (ms ! i)) \<and> val (ms ! Suc i) = js_increment demo_host (val (ms ! i))
        \<and> (\<forall>n. val (ms ! i) = Num n \<and> - (2 ^ 53) \<le> n \<and> n < 2 ^ 53 \<longrightarrow> val (ms ! Suc i) = Num (n + 1))"
    by blast
  from ms(1) have m: "ms = members (declarations color_data ! 0)" by simp
  have "Suc 1 < length color_members \<and> color_members ! Suc 1 = TSEnumMember (Identifier ''Blue'') None"
    by (simp add: color_members_def)
  with ms(2) have "\<forall>n. val (ms ! 1) = Num n \<and> - (2 ^ 53) \<le> n \<and> n < 2 ^ 53 \<longrightarrow> val (ms ! Suc 1) = Num (n + 1)"
    by blast
  moreover have "val (ms ! 1) = Num 5" by (simp add: m color_data_def)
  ultimately have "val (ms ! Suc 1) = Num (5 + 1)" by simp
  with r1 r2 f m show ?thesis by simp
qed

section \<open>The dynamic matcher: the walk and the cache\<close>

text \<open>
  \<open>has_tsconfig h dir\<close>: the probe \<open>accessSync(path.join(dir, 'tsconfig.json'))\<close> returns.
  \<open>entry_for h dir\<close> is the cache entry a lookup computes for a directory that is not
  cached yet, and \<open>cache_ok\<close> says that every entry of a cache is the one this lookup
  computes: the cache is private to the module, starts empty and is written by the
  lookup only.
\<close>

definition accessible :: "tsconfig_host \<Rightarrow> string \<Rightarrow> bool" where
  "accessible h p = (case accessSync h p of Inr _ \<Rightarrow> True | Inl _ \<Rightarrow> False)"

definition has_tsconfig :: "tsconfig_host \<Rightarrow> string \<Rightarrow> bool" where
  "has_tsconfig h dir = accessible h (pathJoin h dir ''tsconfig.json'')"

lemma find_tsconfig_walk:
  "find_tsconfig h start =
     (case List.find (has_tsconfig h) (walked_dirs start) of
        None \<Rightarrow> None
      | Some d \<Rightarrow> Some (pathJoin h d ''tsconfig.json''))"
proof (induction h start rule: find_tsconfig.induct)
  case (1 h currentDir)
  show ?case
  proof (cases "currentDir \<noteq> dirname currentDir")
    case False
    then show ?thesis
      by (simp add: find_tsconfig.simps[of h currentDir] walked_dirs.simps[of currentDir])
  next
    case True
    show ?thesis
    proof (cases "accessSync h (pathJoin h currentDir ''tsconfig.json'')")
      case (Inr u)
      with True show ?thesis
        by (simp add: find_tsconfig.simps[of h currentDir] walked_dirs.simps[of currentDir]
            has_tsconfig_def accessible_def)
    next
      case (Inl e)
      with True 1[OF True refl Inl] show ?thesis
        by (simp add: find_tsconfig.simps[of h currentDir] walked_dirs.simps[of currentDir]
            has_tsconfig_def accessible_def)
    qed
  qed
qed

lemma walked_dirs_not_fixed: "d \<in> set (walked_dirs start) \<Longrightarrow> dirname d \<noteq> d"
proof (induction start rule: walked_dirs.induct)
  case (1 currentDir)
  then show ?case
    by (cases "currentDir \<noteq> dirname currentDir")
       (auto simp: walked_dirs.simps[of currentDir])
qed

lemma walked_dirs_nth:
  "i < length (walked_dirs start) \<Longrightarrow> walked_dirs start ! i = (dirname ^^ i) start"
proof (induction start arbitrary: i rule: walked_dirs.induct)
  case (1 currentDir)
  show ?case
  proof (cases "currentDir \<noteq> dirname currentDir")
    case False
    with 1(2) show ?thesis by (simp add: walked_dirs.simps[of currentDir])
  next
    case True
    show ?thesis
    proof (cases i)
      case 0
      with True show ?thesis by (simp add: walked_dirs.simps[of currentDir])
    next
      case (Suc j)
      with True 1(2) have "j < length (walked_dirs (dirname currentDir))"
        by (simp add: walked_dirs.simps[of currentDir])
      from 1(1)[OF True this] Suc True show ?thesis
        by (simp add: walked_dirs.simps[of currentDir] funpow_swap1)
    qed
  qed
qed

lemma walked_dirs_end:
  "dirname ((dirname ^^ length (walked_dirs start)) start) = (dirname ^^ length (walked_dirs start)) start"
proof (induction start rule: walked_dirs.induct)
  case (1 currentDir)
  show ?case
  proof (cases "currentDir \<noteq> dirname currentDir")
    case False
    then show ?thesis by (simp add: walked_dirs.simps[of currentDir])
  next
    case True
    from 1[OF True] True show ?thesis
      by (simp add: walked_dirs.simps[of currentDir] funpow_swap1)
  qed
qed

lemma dynamic_lookup_sentinel:
  assumes "cache (dirname fromFile) = None"
    and "find_tsconfig h (dirname fromFile) = None
         \<or> (\<exists>p e. find_tsconfig h (dirname fromFile) = Some p \<and> load_matcher h p = Inl e)
         \<or> (\<exists>p. find_tsconfig h (dirname fromFile) = Some p \<and> load_matcher h p = Inr None)"
  shows "dynamic_lookup h cache specifier fromFile = (Inr [], cache(dirname fromFile \<mapsto> None))"
  using assms by (auto simp: dynamic_lookup_def Let_def)

lemma dynamic_lookup_returns: "\<exists>r. fst (dynamic_lookup h cache specifier fromFile) = Inr r"
  by (auto simp: dynamic_lookup_def Let_def split: option.splits sum.splits prod.splits)

lemma dynamic_lookup_frame:
  "d \<noteq> dirname fromFile \<Longrightarrow> snd (dynamic_lookup h cache specifier fromFile) d = cache d"
  by (auto simp: dynamic_lookup_def Let_def split: option.splits sum.splits prod.splits)

lemma dynamicPathsMatcher_returns: "\<exists>r. fst (dynamicPathsMatcher h g cache specifier fromFile) = Inr r"
  using dynamic_lookup_returns
  by (auto simp: dynamicPathsMatcher_def split: option.splits)

definition entry_for :: "tsconfig_host \<Rightarrow> string \<Rightarrow> (paths_matcher \<times> bool) option" where
  "entry_for h dir =
     (case find_tsconfig h dir of
        None \<Rightarrow> None
      | Some tsconfigPath \<Rightarrow>
          (case load_matcher h tsconfigPath of Inl err \<Rightarrow> None | Inr entry \<Rightarrow> entry))"

definition cache_ok :: "tsconfig_host \<Rightarrow> tsconfig_cache \<Rightarrow> bool" where
  "cache_ok h cache = (\<forall>dir entry. cache dir = Some entry \<longrightarrow> entry = entry_for h dir)"

lemma cache_ok_empty: "cache_ok h Map.empty"
  by (simp add: cache_ok_def)

lemma dynamic_lookup_entry:
  assumes "cache_ok h cache"
  shows "dynamic_lookup h cache specifier fromFile =
     (Inr (case entry_for h (dirname fromFile) of None \<Rightarrow> [] | Some (m, _) \<Rightarrow> m specifier),
      cache(dirname fromFile \<mapsto> entry_for h (dirname fromFile)))"
proof (cases "cache (dirname fromFile)")
  case None
  then show ?thesis
    by (auto simp: dynamic_lookup_def entry_for_def Let_def split: option.splits sum.splits)
next
  case (Some entry)
  with assms have e: "entry = entry_for h (dirname fromFile)" by (simp add: cache_ok_def)
  have "cache(dirname fromFile \<mapsto> entry) = cache" using Some by (simp add: map_upd_triv)
  with Some e show ?thesis
    by (auto simp: dynamic_lookup_def Let_def split: option.splits)
qed

lemma dynamic_lookup_cache_ok:
  assumes "cache_ok h cache"
  shows "cache_ok h (snd (dynamic_lookup h cache specifier fromFile))"
  using assms by (simp add: dynamic_lookup_entry cache_ok_def)

lemma find_tsconfig_nearest:
  assumes "walked_dirs start = before @ dirB # ancestors"
    and "\<forall>d \<in> set before. \<not> has_tsconfig h d"
    and "has_tsconfig h dirB"
  shows "find_tsconfig h start = Some (pathJoin h dirB ''tsconfig.json'')"
proof -
  have "List.find (has_tsconfig h) (before @ dirB # ancestors) = Some dirB"
    using assms(2,3) by (induction before) auto
  with assms(1) show ?thesis by (simp add: find_tsconfig_walk)
qed

text \<open>
  A workspace to run the matcher on: package A in \<open>/ws\<close> with the alias \<open>@a/*\<close>, and
  package B nested in \<open>/ws/packages/b\<close> with its own alias \<open>@b/*\<close>; \<open>path.join\<close> is
  \<open>posix_join\<close>. \<open>locked_host\<close> is the same workspace with B's \<open>tsconfig.json\<close> made
  inaccessible; \<open>root_host\<close> has a single \<open>tsconfig.json\<close>, in the root directory, with
  the alias \<open>@r/*\<close>; \<open>broken_host\<close> has one in \<open>/ws\<close> that does not parse.
\<close>

definition config_a :: TsConfigJson where
  "config_a = \<lparr>baseUrl = None, paths = Some [(''@a/*'', [''./src/*''])], allowJs = None\<rparr>"

definition config_b :: TsConfigJson where
  "config_b = \<lparr>baseUrl = None, paths = Some [(''@b/*'', [''./lib/*''])], allowJs = Some True\<rparr>"

definition config_root :: TsConfigJson where
  "config_root = \<lparr>baseUrl = None, paths = Some [(''@r/*'', [''./opt/*''])], allowJs = None\<rparr>"

definition matcher_a :: paths_matcher where
  "matcher_a specifier =
     (if startsWith specifier ''@a/'' then [''/ws/src/'' @ drop 3 specifier] else [])"

definition matcher_b :: paths_matcher where
  "matcher_b specifier =
     (if startsWith specifier ''@b/'' then [''/ws/packages/b/lib/'' @ drop 3 specifier] else [])"

definition matcher_root :: paths_matcher where
  "matcher_root specifier =
     (if startsWith specifier ''@r/'' then [''/opt/'' @ drop 3 specifier] else [])"

definition ws_host :: tsconfig_host where
  "ws_host =
     \<lparr>accessSync = (\<lambda>p. if p = ''/ws/tsconfig.json'' \<or> p = ''/ws/packages/b/tsconfig.json''
                         then Inr () else Inl (HostError ''ENOENT'')),
      pathJoin = posix_join,
      parseTsconfig = (\<lambda>p. if p = ''/ws/tsconfig.json'' then Inr config_a
                            else if p = ''/ws/packages/b/tsconfig.json'' then Inr config_b
                            else Inl (HostError ''ENOENT'')),
      createPathsMatcher = (\<lambda>r. if path r = ''/ws/tsconfig.json'' then Inr (Some matcher_a)
                                 else if path r = ''/ws/packages/b/tsconfig.json'' then Inr (Some matcher_b)
                                 else Inr None)\<rparr>"

definition locked_host :: tsconfig_host where
  "locked_host =
     ws_host\<lparr>accessSync := (\<lambda>p. if p = ''/ws/tsconfig.json'' then Inr ()
                                  else if p = ''/ws/packages/b/tsconfig.json'' then Inl (HostError ''EACCES'')
                                  else Inl (HostError ''ENOENT''))\<rparr>"

definition root_host :: tsconfig_host where
  "root_host =
     \<lparr>accessSync = (\<lambda>p. if p = ''/tsconfig.json'' then Inr () else Inl (HostError ''ENOENT'')),
      pathJoin = posix_join,
      parseTsconfig = (\<lambda>p. if p = ''/tsconfig.json'' then Inr config_root else Inl (HostError ''ENOENT'')),
      createPathsMatcher = (\<lambda>r. if path r = ''/tsconfig.json'' then Inr (Some matcher_root) else Inr None)\<rparr>"

definition broken_host :: tsconfig_host where
  "broken_host =
     \<lparr>accessSync = (\<lambda>p. if p = ''/ws/tsconfig.json'' then Inr () else Inl (HostError ''ENOENT'')),
      pathJoin = posix_join,
      parseTsconfig = (\<lambda>p. Inl (HostError ''Unexpected token in JSON'')),
      createPathsMatcher = (\<lambda>r. Inr None)\<rparr>"

lemma ws_joins:
  "posix_join ''/ws/packages/b/src'' ''tsconfig.json'' = ''/ws/packages/b/src/tsconfig.json''"
  "posix_join ''/ws/packages/b'' ''tsconfig.json'' = ''/ws/packages/b/tsconfig.json''"
  "posix_join ''/ws/packages'' ''tsconfig.json'' = ''/ws/packages/tsconfig.json''"
  "posix_join ''/ws'' ''tsconfig.json'' = ''/ws/tsconfig.json''"
  "posix_join ''/ws/src'' ''tsconfig.json'' = ''/ws/src/tsconfig.json''"
  "posix_join ''/tmp'' ''tsconfig.json'' = ''/tmp/tsconfig.json''"
  "posix_join ''/ws/node_modules/dep'' ''tsconfig.json'' = ''/ws/node_modules/dep/tsconfig.json''"
  "posix_join ''/ws/node_modules'' ''tsconfig.json'' = ''/ws/node_modules/tsconfig.json''"
  "posix_join ''/'' ''tsconfig.json'' = ''/tsconfig.json''"
  "posix_join ''//'' ''tsconfig.json'' = ''/tsconfig.json''"
  by code_simp+

lemma host_joins: "pathJoin ws_host = posix_join" "pathJoin root_host = posix_join"
  "pathJoin broken_host = posix_join" "pathJoin locked_host = posix_join"
  by (simp_all add: ws_host_def root_host_def broken_host_def locked_host_def)

lemma walked_b: "walked_dirs ''/ws/packages/b/src'' = [''/ws/packages/b/src''] @ ''/ws/packages/b'' # [''/ws/packages'', ''/ws'']"
  by code_simp

lemma dirname_x: "dirname ''/ws/packages/b/src/x.ts'' = ''/ws/packages/b/src''"
  by code_simp

lemma has_b: "has_tsconfig ws_host ''/ws/packages/b''" "\<not> has_tsconfig ws_host ''/ws/packages/b/src''" "has_tsconfig ws_host ''/ws''"
  by (simp_all add: has_tsconfig_def accessible_def host_joins ws_joins, simp_all add: ws_host_def)

text \<open>
  C3. For a file inside a nested package B that has its own \<open>tsconfig.json\<close>: when
  the directory of B is the first one on the upward walk from the file's directory
  whose probe succeeds, and B's file parses to a configuration with a paths matcher,
  the dynamic matcher answers every specifier with B's matcher alone. Nothing is
  assumed of the directories above B, so the aliases of an ancestor package A never
  enter the answer; and the cache stays one that the lookup itself has filled.
\<close>

theorem C3_nearest_config_only:
  assumes "cache_ok h cache"
    and "fromFile \<noteq> []"
    and "walked_dirs (dirname fromFile) = before @ dirB # ancestors"
    and "\<forall>d \<in> set before. \<not> has_tsconfig h d"
    and "has_tsconfig h dirB"
    and "parseTsconfig h (pathJoin h dirB ''tsconfig.json'') = Inr configB"
    and "createPathsMatcher h \<lparr>path = pathJoin h dirB ''tsconfig.json'', config = configB\<rparr> = Inr (Some matcherB)"
  shows "fst (dynamicPathsMatcher h tsconfigPathsMatcher cache specifier (Some fromFile)) = Inr (matcherB specifier)
       \<and> cache_ok h (snd (dynamicPathsMatcher h tsconfigPathsMatcher cache specifier (Some fromFile)))"
proof -
  from find_tsconfig_nearest[OF assms(3,4,5)]
  have f: "find_tsconfig h (dirname fromFile) = Some (pathJoin h dirB ''tsconfig.json'')" .
  have l: "load_matcher h (pathJoin h dirB ''tsconfig.json'')
             = Inr (Some (matcherB, case allowJs configB of None \<Rightarrow> False | Some b \<Rightarrow> b))"
    using assms(6,7) by (simp add: load_matcher_def Let_def)
  have e: "entry_for h (dirname fromFile)
             = Some (matcherB, case allowJs configB of None \<Rightarrow> False | Some b \<Rightarrow> b)"
    using f l by (simp add: entry_for_def)
  have d: "dynamicPathsMatcher h tsconfigPathsMatcher cache specifier (Some fromFile)
             = dynamic_lookup h cache specifier fromFile"
    using assms(2) by (simp add: dynamicPathsMatcher_def)
  have "fst (dynamic_lookup h cache specifier fromFile) = Inr (matcherB specifier)"
    using e by (simp add: dynamic_lookup_entry[OF assms(1)])
  moreover have "cache_ok h (snd (dynamic_lookup h cache specifier fromFile))"
    by (rule dynamic_lookup_cache_ok[OF assms(1)])
  ultimately show ?thesis by (simp only: d)
qed

theorem C3_nearest_config_only_witness:
  "has_tsconfig ws_host ''/ws'' \<and> has_tsconfig ws_host ''/ws/packages/b''
   \<and> matcher_a ''@a/foo'' = [''/ws/src/foo'']
   \<and> fst (dynamicPathsMatcher ws_host (Some matcher_a) Map.empty ''@a/foo'' (Some ''/ws/packages/b/src/x.ts'')) = Inr []
   \<and> fst (dynamicPathsMatcher ws_host (Some matcher_a) Map.empty ''@b/foo'' (Some ''/ws/packages/b/src/x.ts''))
       = Inr [''/ws/packages/b/lib/foo'']"
proof -
  have w: "walked_dirs (dirname ''/ws/packages/b/src/x.ts'') = [''/ws/packages/b/src''] @ ''/ws/packages/b'' # [''/ws/packages'', ''/ws'']"
    by (simp only: dirname_x walked_b)
  have nb: "\<forall>d \<in> set [''/ws/packages/b/src'']. \<not> has_tsconfig ws_host d" using has_b by simp
  have p: "parseTsconfig ws_host (pathJoin ws_host ''/ws/packages/b'' ''tsconfig.json'') = Inr config_b"
    by (simp add: host_joins ws_joins, simp add: ws_host_def)
  have c: "createPathsMatcher ws_host \<lparr>path = pathJoin ws_host ''/ws/packages/b'' ''tsconfig.json'', config = config_b\<rparr> = Inr (Some matcher_b)"
    by (simp add: host_joins ws_joins, simp add: ws_host_def)
  have ne: "''/ws/packages/b/src/x.ts'' \<noteq> []" by simp
  note t = C3_nearest_config_only[OF cache_ok_empty ne w nb has_b(1) p c, of "Some matcher_a"]
  have m: "matcher_b ''@a/foo'' = []" "matcher_b ''@b/foo'' = [''/ws/packages/b/lib/foo'']" "matcher_a ''@a/foo'' = [''/ws/src/foo'']"
    by (simp_all add: matcher_a_def matcher_b_def startsWith_def)
  from t[of "''@a/foo''"] t[of "''@b/foo''"] m has_b show ?thesis by simp
qed

text \<open>
  C7, as stated, fails for an access error: in \<open>locked_host\<close> the probe of
  \<open>/ws/packages/b/tsconfig.json\<close> throws \<open>EACCES\<close>. The \<open>catch\<close> of the walk drops the
  exception and the walk goes on to \<open>/ws\<close>, whose file is found: the matcher returns
  A's candidate for \<open>@a/foo\<close>, and what it caches under the starting directory is A's
  matcher, not the "no config" entry.
\<close>

theorem C7_counterexample:
  "accessSync locked_host ''/ws/packages/b/tsconfig.json'' = Inl (HostError ''EACCES'')
   \<and> accessSync locked_host ''/ws/tsconfig.json'' = Inr ()
   \<and> fst (dynamicPathsMatcher locked_host None Map.empty ''@a/foo'' (Some ''/ws/packages/b/src/x.ts''))
       = Inr [''/ws/src/foo'']
   \<and> snd (dynamicPathsMatcher locked_host None Map.empty ''@a/foo'' (Some ''/ws/packages/b/src/x.ts''))
         ''/ws/packages/b/src'' \<noteq> Some None"
  by (simp add: dynamicPathsMatcher_def dynamic_lookup_def dirname_x find_tsconfig_walk walked_b
      has_tsconfig_def accessible_def host_joins ws_joins load_matcher_def Let_def,
      simp add: locked_host_def ws_host_def matcher_a_def startsWith_def)

text \<open>
  C7, amended. When the walk from the requesting file's directory finds no
  \<open>tsconfig.json\<close>, or the file it found cannot be read or parsed (\<open>parseTsconfig\<close>
  throws) or \<open>createPathsMatcher\<close> throws, the matcher stores the "no config" entry
  under the starting directory \<open>dirname fromFile\<close>, and returns no candidate. An
  exception of \<open>accessSync\<close> while probing a directory is taken as "no file here": the
  walk goes on from the parent as if it had started there, so that a file higher up
  is still found and used. No call of the matcher, with or without a requesting
  file, ends in an exception (a paths matcher being a function that returns for
  every specifier), and a call changes the cache at no directory other than the
  starting one.
\<close>

theorem C7_no_config_sentinel:
  "(fromFile \<noteq> [] \<and> cache (dirname fromFile) = None
      \<and> (find_tsconfig h (dirname fromFile) = None
          \<or> (\<exists>p e. find_tsconfig h (dirname fromFile) = Some p
                \<and> (parseTsconfig h p = Inl e
                    \<or> (\<exists>cfg. parseTsconfig h p = Inr cfg
                          \<and> createPathsMatcher h \<lparr>path = p, config = cfg\<rparr> = Inl e))))
     \<longrightarrow> dynamicPathsMatcher h tsconfigPathsMatcher cache specifier (Some fromFile)
           = (Inr [], cache(dirname fromFile \<mapsto> None)))
   \<and> (currentDir \<noteq> dirname currentDir
        \<and> accessSync h (pathJoin h currentDir ''tsconfig.json'') = Inl err
     \<longrightarrow> find_tsconfig h currentDir = find_tsconfig h (dirname currentDir))
   \<and> (\<exists>r. fst (dynamicPathsMatcher h tsconfigPathsMatcher cache specifier anyFrom) = Inr r)
   \<and> (\<forall>dir. dir \<noteq> dirname fromFile \<longrightarrow>
         snd (dynamicPathsMatcher h tsconfigPathsMatcher cache specifier (Some fromFile)) dir = cache dir)"
proof (intro conjI impI allI)
  assume a: "fromFile \<noteq> [] \<and> cache (dirname fromFile) = None
      \<and> (find_tsconfig h (dirname fromFile) = None
          \<or> (\<exists>p e. find_tsconfig h (dirname fromFile) = Some p
                \<and> (parseTsconfig h p = Inl e
                    \<or> (\<exists>cfg. parseTsconfig h p = Inr cfg
                          \<and> createPathsMatcher h \<lparr>path = p, config = cfg\<rparr> = Inl e))))"
  then have "find_tsconfig h (dirname fromFile) = None
         \<or> (\<exists>p e. find_tsconfig h (dirname fromFile) = Some p \<and> load_matcher h p = Inl e)
         \<or> (\<exists>p. find_tsconfig h (dirname fromFile) = Some p \<and> load_matcher h p = Inr None)"
    by (auto simp: load_matcher_def Let_def)
  from dynamic_lookup_sentinel[OF _ this] a
  show "dynamicPathsMatcher h tsconfigPathsMatcher cache specifier (Some fromFile)
           = (Inr [], cache(dirname fromFile \<mapsto> None))"
    by (simp add: dynamicPathsMatcher_def)
next
  assume "currentDir \<noteq> dirname currentDir
        \<and> accessSync h (pathJoin h currentDir ''tsconfig.json'') = Inl err"
  then show "find_tsconfig h currentDir = find_tsconfig h (dirname currentDir)"
    by (subst find_tsconfig.simps) simp
next
  show "\<exists>r. fst (dynamicPathsMatcher h tsconfigPathsMatcher cache specifier anyFrom) = Inr r"
    by (rule dynamicPathsMatcher_returns)
next
  fix dir assume "dir \<noteq> dirname fromFile"
  then show "snd (dynamicPathsMatcher h tsconfigPathsMatcher cache specifier (Some fromFile)) dir = cache dir"
    by (simp add: dynamicPathsMatcher_def dynamic_lookup_frame)
qed

theorem C7_no_config_sentinel_witness:
  "find_tsconfig ws_host (dirname ''/tmp/x.ts'') = None
   \<and> fst (dynamicPathsMatcher ws_host (Some matcher_a) Map.empty ''@a/foo'' (Some ''/tmp/x.ts'')) = Inr []
   \<and> snd (dynamicPathsMatcher ws_host (Some matcher_a) Map.empty ''@a/foo'' (Some ''/tmp/x.ts'')) ''/tmp'' = Some None
   \<and> find_tsconfig broken_host (dirname ''/ws/src/x.ts'') = Some ''/ws/tsconfig.json''
   \<and> parseTsconfig broken_host ''/ws/tsconfig.json'' = Inl (HostError ''Unexpected token in JSON'')
   \<and> fst (dynamicPathsMatcher broken_host None Map.empty ''@a/foo'' (Some ''/ws/src/x.ts'')) = Inr []
   \<and> snd (dynamicPathsMatcher broken_host None Map.empty ''@a/foo'' (Some ''/ws/src/x.ts'')) ''/ws/src'' = Some None
   \<and> snd (dynamicPathsMatcher broken_host None Map.empty ''@a/foo'' (Some ''/ws/src/x.ts'')) ''/ws'' = None
   \<and> ''/ws/packages/b'' \<noteq> dirname ''/ws/packages/b''
   \<and> accessSync locked_host (pathJoin locked_host ''/ws/packages/b'' ''tsconfig.json'') = Inl (HostError ''EACCES'')
   \<and> find_tsconfig locked_host ''/ws/packages/b'' = find_tsconfig locked_host (dirname ''/ws/packages/b'')"
proof -
  have d1: "dirname ''/tmp/x.ts'' = ''/tmp''" by code_simp
  have w1: "walked_dirs ''/tmp'' = [''/tmp'']" by code_simp
  have f1: "find_tsconfig ws_host (dirname ''/tmp/x.ts'') = None"
    by (simp add: d1 w1 find_tsconfig_walk has_tsconfig_def accessible_def host_joins ws_joins, simp add: ws_host_def)
  have d2: "dirname ''/ws/src/x.ts'' = ''/ws/src''" by code_simp
  have w2: "walked_dirs ''/ws/src'' = [''/ws/src'', ''/ws'']" by code_simp
  have f2: "find_tsconfig broken_host (dirname ''/ws/src/x.ts'') = Some ''/ws/tsconfig.json''"
    by (simp add: d2 w2 find_tsconfig_walk has_tsconfig_def accessible_def host_joins ws_joins, simp add: broken_host_def)
  have p2: "parseTsconfig broken_host ''/ws/tsconfig.json'' = Inl (HostError ''Unexpected token in JSON'')"
    by (simp add: broken_host_def)
  have d3: "dirname ''/ws/packages/b'' = ''/ws/packages''" by code_simp
  have a3: "''/ws/packages/b'' \<noteq> dirname ''/ws/packages/b''
     \<and> accessSync locked_host (pathJoin locked_host ''/ws/packages/b'' ''tsconfig.json'') = Inl (HostError ''EACCES'')"
    by (simp add: d3 host_joins ws_joins, simp add: locked_host_def)
  note t1 = C7_no_config_sentinel[of "''/tmp/x.ts''" Map.empty ws_host "Some matcher_a" "''@a/foo''", THEN conjunct1]
  note t2 = C7_no_config_sentinel[of "''/ws/src/x.ts''" Map.empty broken_host None "''@a/foo''"]
  note t3 = C7_no_config_sentinel[of _ _ locked_host _ _ "''/ws/packages/b''" "HostError ''EACCES''",
      THEN conjunct2, THEN conjunct1]
  from t1 f1 have r1: "dynamicPathsMatcher ws_host (Some matcher_a) Map.empty ''@a/foo'' (Some ''/tmp/x.ts'')
      = (Inr [], Map.empty(dirname ''/tmp/x.ts'' \<mapsto> None))" by simp
  from t2[THEN conjunct1] f2 p2 have r2: "dynamicPathsMatcher broken_host None Map.empty ''@a/foo'' (Some ''/ws/src/x.ts'')
      = (Inr [], Map.empty(dirname ''/ws/src/x.ts'' \<mapsto> None))" by simp
  from t2[THEN conjunct2, THEN conjunct2, THEN conjunct2] have r3:
     "''/ws'' \<noteq> dirname ''/ws/src/x.ts'' \<longrightarrow> snd (dynamicPathsMatcher broken_host None Map.empty ''@a/foo'' (Some ''/ws/src/x.ts'')) ''/ws'' = Map.empty ''/ws''"
    by blast
  from t3 a3 have r4: "find_tsconfig locked_host ''/ws/packages/b'' = find_tsconfig locked_host (dirname ''/ws/packages/b'')"
    by blast
  show ?thesis using f1 f2 p2 r1 r2 r3 r4 a3 by (simp add: d1 d2)
qed

lemma dirname_sx: "dirname ''//x.ts'' = ''//''"
  by code_simp

lemma walked_ss: "walked_dirs ''//'' = [''//'']"
  by code_simp

lemma abs_path_append: "abs_path (xs @ ys) = abs_path xs @ abs_path ys"
  by (induction xs) auto

lemma split_segments_plain:
  "CHR ''/'' \<notin> set seg \<Longrightarrow> split_segments cur (seg @ rest) = split_segments (cur @ seg) rest"
  by (induction seg arbitrary: cur) auto

lemma split_segments_abs:
  "\<forall>seg \<in> set segs. clean_segment seg \<Longrightarrow>
     split_segments cur (abs_path segs) = (if segs = [] then [cur] else cur # segs)"
proof (induction segs arbitrary: cur)
  case Nil
  then show ?case by simp
next
  case (Cons seg segs)
  then have "CHR ''/'' \<notin> set seg" by (simp add: clean_segment_def)
  then have "split_segments [] (seg @ abs_path segs) = split_segments seg (abs_path segs)"
    using split_segments_plain[of seg "[]" "abs_path segs"] by simp
  with Cons show ?case by simp
qed

lemma normalize_segments_clean:
  "\<forall>seg \<in> set segs. clean_segment seg \<Longrightarrow> normalize_segments a res segs = rev res @ segs"
  by (induction segs arbitrary: res) (auto simp: clean_segment_def)

lemma join_segments_abs: "segs \<noteq> [] \<Longrightarrow> CHR ''/'' # join_segments segs = abs_path segs"
proof (induction segs rule: join_segments.induct)
  case 1
  then show ?case by simp
next
  case (2 seg)
  then show ?case by simp
next
  case (3 seg v va)
  then show ?case by simp
qed

lemma abs_path_last:
  "segs \<noteq> [] \<Longrightarrow> \<forall>seg \<in> set segs. clean_segment seg \<Longrightarrow> last (abs_path segs) \<noteq> CHR ''/''"
proof (induction segs)
  case Nil
  then show ?case by simp
next
  case (Cons seg segs)
  show ?case
  proof (cases "segs = []")
    case True
    from Cons.prems have "seg \<noteq> []" "CHR ''/'' \<notin> set seg" by (simp_all add: clean_segment_def)
    then have "last seg \<noteq> CHR ''/''" by (metis last_in_set)
    with True \<open>seg \<noteq> []\<close> show ?thesis by simp
  next
    case False
    then have "abs_path segs \<noteq> []" by (cases segs) auto
    with Cons False show ?thesis by simp
  qed
qed

lemma posix_normalize_abs:
  assumes "segs \<noteq> []" "\<forall>seg \<in> set segs. clean_segment seg"
  shows "posix_normalize (abs_path segs) = abs_path segs"
proof -
  from assms(1) obtain seg rest where sr: "segs = seg # rest" by (cases segs) auto
  have ne: "abs_path segs \<noteq> []" and hd: "hd (abs_path segs) = CHR ''/''" by (simp_all add: sr)
  have sp: "split_segments [] (abs_path segs) = [] # segs"
    using split_segments_abs[OF assms(2), of "[]"] assms(1) by simp
  have ns: "normalize_segments False [] ([] # segs) = segs"
    using normalize_segments_clean[OF assms(2), of False "[]"] by simp
  have js: "join_segments segs \<noteq> []" using sr assms(2)
    by (cases rest) (auto simp: clean_segment_def)
  show ?thesis
    using ne hd sp ns js abs_path_last[OF assms] join_segments_abs[OF assms(1)]
    by (simp add: posix_normalize_def Let_def)
qed

lemma clean_tsconfig: "clean_segment ''tsconfig.json''"
  by (simp add: clean_segment_def)

lemma posix_join_abs:
  assumes "segs \<noteq> []" "\<forall>seg \<in> set segs. clean_segment seg"
  shows "posix_join (abs_path segs) ''tsconfig.json'' = abs_path segs @ ''/tsconfig.json''"
proof -
  have ne: "abs_path segs \<noteq> []" using assms(1) by (cases segs) auto
  have "abs_path segs @ ''/'' @ ''tsconfig.json'' = abs_path (segs @ [''tsconfig.json''])"
    by (simp add: abs_path_append)
  moreover have "posix_normalize (abs_path (segs @ [''tsconfig.json''])) = abs_path (segs @ [''tsconfig.json''])"
    by (rule posix_normalize_abs) (use assms clean_tsconfig in auto)
  ultimately show ?thesis using ne by (simp add: posix_join_def abs_path_append)
qed

lemma posix_join_abs_not_root:
  assumes "segs \<noteq> []" "\<forall>seg \<in> set segs. clean_segment seg"
  shows "posix_join (abs_path segs) ''tsconfig.json'' \<noteq> ''/tsconfig.json''"
proof -
  have ne: "abs_path segs \<noteq> []" using assms(1) by (cases segs) auto
  have "abs_path segs @ ''/tsconfig.json'' \<noteq> [] @ ''/tsconfig.json''"
    using ne by (simp only: append_same_eq) simp
  then show ?thesis by (simp add: posix_join_abs[OF assms])
qed

lemma dirname_end_segment:
  "p = q @ CHR ''/'' # seg @ rest \<Longrightarrow> CHR ''/'' \<notin> set seg \<Longrightarrow>
     dirname_end p (length q + length seg) False = (if q = [] then None else Some (length q))"
proof (induction seg arbitrary: rest rule: rev_induct)
  case Nil
  show ?case
  proof (cases q rule: rev_cases)
    case Nil
    then show ?thesis by simp
  next
    case (snoc q' c)
    with Nil.prems have "p ! Suc (length q') = CHR ''/''"
      by (simp add: nth_append)
    with snoc show ?thesis by simp
  qed
next
  case (snoc c seg)
  from snoc.prems have c: "c \<noteq> CHR ''/''" and s: "CHR ''/'' \<notin> set seg" by auto
  from snoc.prems(1) have p: "p = q @ CHR ''/'' # seg @ (c # rest)" by simp
  then have "p ! Suc (length q + length seg) = c"
    by (simp add: nth_append)
  with c have "dirname_end p (length q + length (seg @ [c])) False = dirname_end p (length q + length seg) False"
    by simp
  with snoc.IH[OF p s] show ?case by simp
qed

lemma dirname_abs:
  assumes "\<forall>seg \<in> set segs. clean_segment seg" "clean_segment leaf"
  shows "dirname (abs_path (segs @ [leaf])) = (if segs = [] then ''/'' else abs_path segs)"
proof -
  let ?p = "abs_path (segs @ [leaf])"
  from assms(2) have "leaf \<noteq> []" by (simp add: clean_segment_def)
  then obtain f c where fc: "leaf = f @ [c]" by (cases leaf rule: rev_cases) auto
  with assms(2) have c: "c \<noteq> CHR ''/''" and f: "CHR ''/'' \<notin> set f" by (auto simp: clean_segment_def)
  have len: "length ?p - 1 = Suc (length (abs_path segs) + length f)"
    by (simp add: abs_path_append fc)
  have "?p ! Suc (length (abs_path segs) + length f) = c"
    by (simp add: abs_path_append fc nth_append)
  with c have "dirname_end ?p (Suc (length (abs_path segs) + length f)) True
                 = dirname_end ?p (length (abs_path segs) + length f) False"
    by simp
  then have "dirname_end ?p (length ?p - 1) True = dirname_end ?p (length (abs_path segs) + length f) False"
    by (simp only: len)
  also have "\<dots> = (if abs_path segs = [] then None else Some (length (abs_path segs)))"
    by (rule dirname_end_segment[where rest = "[c]"]) (simp_all add: abs_path_append fc f)
  finally have e: "dirname_end ?p (length ?p - 1) True
      = (if abs_path segs = [] then None else Some (length (abs_path segs)))" .
  have ne: "?p \<noteq> []" and hd: "hd ?p = CHR ''/''"
    by (cases segs; simp)+
  show ?thesis
  proof (cases segs)
    case Nil
    with e ne hd show ?thesis by (simp add: dirname_def Let_def)
  next
    case (Cons seg rest)
    with assms(1) have "seg \<noteq> []" by (simp add: clean_segment_def)
    with Cons have l: "length (abs_path segs) \<noteq> 1" "abs_path segs \<noteq> []"
      by (cases seg; simp)+
    from e l ne hd Cons show ?thesis
      by (simp add: dirname_def Let_def abs_path_append)
  qed
qed

lemma walked_dirs_root: "walked_dirs ''/'' = []"
  by (subst walked_dirs.simps) (simp add: dirname_root)

lemma walked_dirs_abs:
  "\<forall>seg \<in> set segs. clean_segment seg \<Longrightarrow>
     \<forall>d \<in> set (walked_dirs (if segs = [] then ''/'' else abs_path segs)).
        \<exists>prefix. prefix \<noteq> [] \<and> (\<forall>seg \<in> set prefix. clean_segment seg) \<and> d = abs_path prefix"
proof (induction segs rule: rev_induct)
  case Nil
  then show ?case by (simp add: walked_dirs_root)
next
  case (snoc leaf segs)
  from snoc.prems have cl: "\<forall>seg \<in> set segs. clean_segment seg" "clean_segment leaf" by auto
  let ?start = "abs_path (segs @ [leaf])"
  have d: "dirname ?start = (if segs = [] then ''/'' else abs_path segs)"
    by (rule dirname_abs[OF cl])
  have "length (dirname ?start) < length ?start"
    unfolding d using cl(2) by (auto simp: abs_path_append clean_segment_def)
  then have ne: "?start \<noteq> dirname ?start" by auto
  have w: "walked_dirs ?start = ?start # walked_dirs (dirname ?start)"
    using ne by (subst walked_dirs.simps) simp
  from snoc.IH[OF cl(1)] have ih:
    "\<forall>d \<in> set (walked_dirs (dirname ?start)).
        \<exists>prefix. prefix \<noteq> [] \<and> (\<forall>seg \<in> set prefix. clean_segment seg) \<and> d = abs_path prefix"
    by (simp only: d)
  have "\<exists>prefix. prefix \<noteq> [] \<and> (\<forall>seg \<in> set prefix. clean_segment seg) \<and> ?start = abs_path prefix"
    using snoc.prems by (intro exI[of _ "segs @ [leaf]"]) simp
  with ih w show ?case by simp
qed

lemma probed_never_root:
  assumes "\<forall>seg \<in> set segs. clean_segment seg" "clean_segment leaf"
    and "d \<in> set (walked_dirs (dirname (abs_path (segs @ [leaf]))))"
  shows "posix_join d ''tsconfig.json'' \<noteq> ''/tsconfig.json''"
proof -
  from assms(3) have "d \<in> set (walked_dirs (if segs = [] then ''/'' else abs_path segs))"
    by (simp only: dirname_abs[OF assms(1,2)])
  with walked_dirs_abs[OF assms(1)] obtain prefix where
    "prefix \<noteq> []" "\<forall>seg \<in> set prefix. clean_segment seg" "d = abs_path prefix"
    by blast
  then show ?thesis by (simp add: posix_join_abs_not_root)
qed

text \<open>
  C10, as stated, fails for a requesting file directly under \<open>//\<close>: the directory of
  \<open>//x.ts\<close> is \<open>//\<close>, which differs from its own parent \<open>/\<close> and is probed, and
  \<open>path.join('//', 'tsconfig.json')\<close> is \<open>/tsconfig.json\<close>, the file of the root. In
  \<open>root_host\<close>, where the root directory is the only one with a \<open>tsconfig.json\<close>, the
  file is found and its matcher is used and cached.
\<close>

theorem C10_counterexample:
  "accessSync root_host ''/tsconfig.json'' = Inr ()
   \<and> walked_dirs (dirname ''//x.ts'') = [''//'']
   \<and> pathJoin root_host ''//'' ''tsconfig.json'' = ''/tsconfig.json''
   \<and> find_tsconfig root_host (dirname ''//x.ts'') = Some ''/tsconfig.json''
   \<and> fst (dynamicPathsMatcher root_host None Map.empty ''@r/foo'' (Some ''//x.ts'')) = Inr [''/opt/foo'']
   \<and> snd (dynamicPathsMatcher root_host None Map.empty ''@r/foo'' (Some ''//x.ts'')) ''//'' \<noteq> Some None"
  by (simp add: dynamicPathsMatcher_def dynamic_lookup_def dirname_sx find_tsconfig_walk walked_ss
      has_tsconfig_def accessible_def host_joins ws_joins load_matcher_def Let_def,
      simp add: root_host_def matcher_root_def startsWith_def)

text \<open>
  C10, amended. The walk probes exactly the directories \<open>start\<close>, \<open>dirname start\<close>,
  \<open>dirname (dirname start)\<close>, ... that differ from their own parent, and stops at the
  first one that equals its parent: the root \<open>/\<close> is never probed. The walk returns
  the \<open>tsconfig.json\<close> of the first probed directory that has one, and a lookup that
  is not cached uses what the walk returns: the matcher of that file, or the "no
  config" entry when there is none. So a \<open>tsconfig.json\<close> in the root directory is
  found only through a probed directory whose join with \<open>tsconfig.json\<close> is the root's
  file: when the root's file is the only \<open>tsconfig.json\<close> and no probed directory
  joins to it, a lookup that is not cached stores the "no config" entry and returns
  no candidate. With \<open>path.join\<close> on a POSIX system, no probed directory joins to it
  when the requesting file is given by an absolute path in normal form.
\<close>

theorem C10_root_never_probed:
  "(\<forall>d \<in> set (walked_dirs start). dirname d \<noteq> d \<and> d \<noteq> ''/'')
   \<and> (\<forall>i < length (walked_dirs start). walked_dirs start ! i = (dirname ^^ i) start)
   \<and> dirname ((dirname ^^ length (walked_dirs start)) start) = (dirname ^^ length (walked_dirs start)) start
   \<and> find_tsconfig h start =
       (case List.find (has_tsconfig h) (walked_dirs start) of
          None \<Rightarrow> None
        | Some d \<Rightarrow> Some (pathJoin h d ''tsconfig.json''))
   \<and> (fromFile \<noteq> [] \<and> cache (dirname fromFile) = None
        \<longrightarrow> dynamicPathsMatcher h tsconfigPathsMatcher cache specifier (Some fromFile) =
              (case find_tsconfig h (dirname fromFile) of
                 None \<Rightarrow> (Inr [], cache(dirname fromFile \<mapsto> None))
               | Some tsconfigPath \<Rightarrow>
                   (case load_matcher h tsconfigPath of
                      Inl err \<Rightarrow> (Inr [], cache(dirname fromFile \<mapsto> None))
                    | Inr None \<Rightarrow> (Inr [], cache(dirname fromFile \<mapsto> None))
                    | Inr (Some (pathsMatcher, configAllowJs)) \<Rightarrow>
                        (Inr (pathsMatcher specifier),
                         cache(dirname fromFile \<mapsto> Some (pathsMatcher, configAllowJs))))))
   \<and> (fromFile \<noteq> [] \<and> cache (dirname fromFile) = None
        \<and> (\<forall>d. has_tsconfig h d \<longrightarrow> pathJoin h d ''tsconfig.json'' = pathJoin h ''/'' ''tsconfig.json'')
        \<and> (\<forall>d \<in> set (walked_dirs (dirname fromFile)).
               pathJoin h d ''tsconfig.json'' \<noteq> pathJoin h ''/'' ''tsconfig.json'')
        \<longrightarrow> dynamicPathsMatcher h tsconfigPathsMatcher cache specifier (Some fromFile)
              = (Inr [], cache(dirname fromFile \<mapsto> None)))
   \<and> (pathJoin h = posix_join \<and> (\<forall>seg \<in> set segs. clean_segment seg) \<and> clean_segment leaf
        \<and> cache (dirname (abs_path (segs @ [leaf]))) = None
        \<and> (\<forall>d. has_tsconfig h d \<longrightarrow> pathJoin h d ''tsconfig.json'' = ''/tsconfig.json'')
        \<longrightarrow> dynamicPathsMatcher h tsconfigPathsMatcher cache specifier (Some (abs_path (segs @ [leaf])))
              = (Inr [], cache(dirname (abs_path (segs @ [leaf])) \<mapsto> None)))"
proof (intro conjI impI ballI allI)
  fix d assume "d \<in> set (walked_dirs start)"
  from walked_dirs_not_fixed[OF this] show "dirname d \<noteq> d" .
  then show "d \<noteq> ''/''" using dirname_root by auto
next
  fix i assume "i < length (walked_dirs start)"
  then show "walked_dirs start ! i = (dirname ^^ i) start" by (rule walked_dirs_nth)
next
  show "dirname ((dirname ^^ length (walked_dirs start)) start) = (dirname ^^ length (walked_dirs start)) start"
    by (rule walked_dirs_end)
next
  show "find_tsconfig h start =
       (case List.find (has_tsconfig h) (walked_dirs start) of
          None \<Rightarrow> None
        | Some d \<Rightarrow> Some (pathJoin h d ''tsconfig.json''))"
    by (rule find_tsconfig_walk)
next
  assume "fromFile \<noteq> [] \<and> cache (dirname fromFile) = None"
  then show "dynamicPathsMatcher h tsconfigPathsMatcher cache specifier (Some fromFile) =
              (case find_tsconfig h (dirname fromFile) of
                 None \<Rightarrow> (Inr [], cache(dirname fromFile \<mapsto> None))
               | Some tsconfigPath \<Rightarrow>
                   (case load_matcher h tsconfigPath of
                      Inl err \<Rightarrow> (Inr [], cache(dirname fromFile \<mapsto> None))
                    | Inr None \<Rightarrow> (Inr [], cache(dirname fromFile \<mapsto> None))
                    | Inr (Some (pathsMatcher, configAllowJs)) \<Rightarrow>
                        (Inr (pathsMatcher specifier),
                         cache(dirname fromFile \<mapsto> Some (pathsMatcher, configAllowJs)))))"
    by (simp add: dynamicPathsMatcher_def dynamic_lookup_def Let_def)
next
  assume a: "fromFile \<noteq> [] \<and> cache (dirname fromFile) = None
        \<and> (\<forall>d. has_tsconfig h d \<longrightarrow> pathJoin h d ''tsconfig.json'' = pathJoin h ''/'' ''tsconfig.json'')
        \<and> (\<forall>d \<in> set (walked_dirs (dirname fromFile)).
               pathJoin h d ''tsconfig.json'' \<noteq> pathJoin h ''/'' ''tsconfig.json'')"
  then have "\<forall>d \<in> set (walked_dirs (dirname fromFile)). \<not> has_tsconfig h d" by blast
  then have "List.find (has_tsconfig h) (walked_dirs (dirname fromFile)) = None"
    by (simp add: find_None_iff)
  then have "find_tsconfig h (dirname fromFile) = None" by (simp add: find_tsconfig_walk)
  with a dynamic_lookup_sentinel[of cache fromFile h specifier]
  show "dynamicPathsMatcher h tsconfigPathsMatcher cache specifier (Some fromFile)
              = (Inr [], cache(dirname fromFile \<mapsto> None))"
    by (simp add: dynamicPathsMatcher_def)
next
  let ?file = "abs_path (segs @ [leaf])"
  assume a: "pathJoin h = posix_join \<and> (\<forall>seg \<in> set segs. clean_segment seg) \<and> clean_segment leaf
        \<and> cache (dirname ?file) = None
        \<and> (\<forall>d. has_tsconfig h d \<longrightarrow> pathJoin h d ''tsconfig.json'' = ''/tsconfig.json'')"
  have "\<forall>d \<in> set (walked_dirs (dirname ?file)). \<not> has_tsconfig h d"
  proof
    fix d assume "d \<in> set (walked_dirs (dirname ?file))"
    with a have "posix_join d ''tsconfig.json'' \<noteq> ''/tsconfig.json''"
      by (intro probed_never_root[of segs leaf]) simp_all
    with a show "\<not> has_tsconfig h d" by auto
  qed
  then have "List.find (has_tsconfig h) (walked_dirs (dirname ?file)) = None"
    by (simp add: find_None_iff)
  then have f: "find_tsconfig h (dirname ?file) = None" by (simp add: find_tsconfig_walk)
  have "?file \<noteq> []" by (simp add: abs_path_append)
  with a f dynamic_lookup_sentinel[of cache ?file h specifier]
  show "dynamicPathsMatcher h tsconfigPathsMatcher cache specifier (Some ?file)
              = (Inr [], cache(dirname ?file \<mapsto> None))"
    by (simp add: dynamicPathsMatcher_def)
qed

theorem C10_root_never_probed_witness:
  "has_tsconfig root_host ''/''
   \<and> walked_dirs (dirname ''/ws/src/x.ts'') = [''/ws/src'', ''/ws'']
   \<and> pathJoin root_host ''/ws/src'' ''tsconfig.json'' = ''/ws/src/tsconfig.json''
   \<and> pathJoin root_host ''/ws'' ''tsconfig.json'' = ''/ws/tsconfig.json''
   \<and> pathJoin root_host ''/'' ''tsconfig.json'' = ''/tsconfig.json''
   \<and> find_tsconfig root_host (dirname ''/ws/src/x.ts'') = None
   \<and> fst (dynamicPathsMatcher root_host None Map.empty ''@r/foo'' (Some ''/ws/src/x.ts'')) = Inr []
   \<and> snd (dynamicPathsMatcher root_host None Map.empty ''@r/foo'' (Some ''/ws/src/x.ts'')) ''/ws/src'' = Some None
   \<and> abs_path ([''ws'', ''src''] @ [''x.ts'']) = ''/ws/src/x.ts''
   \<and> fst (dynamicPathsMatcher root_host None Map.empty ''@r/bar'' (Some ''/ws/src/x.ts'')) = Inr []"
proof -
  have r: "has_tsconfig root_host ''/''"
    by (simp add: has_tsconfig_def accessible_def host_joins ws_joins, simp add: root_host_def)
  have d: "dirname ''/ws/src/x.ts'' = ''/ws/src''" by code_simp
  have w: "walked_dirs ''/ws/src'' = [''/ws/src'', ''/ws'']" by code_simp
  have only: "\<forall>d. has_tsconfig root_host d
                \<longrightarrow> pathJoin root_host d ''tsconfig.json'' = pathJoin root_host ''/'' ''tsconfig.json''"
    by (simp add: has_tsconfig_def accessible_def host_joins ws_joins, simp add: root_host_def)
  have probed: "\<forall>d \<in> set (walked_dirs (dirname ''/ws/src/x.ts'')).
               pathJoin root_host d ''tsconfig.json'' \<noteq> pathJoin root_host ''/'' ''tsconfig.json''"
    by (simp add: d w host_joins ws_joins)
  have n: "\<not> has_tsconfig root_host ''/ws/src''" "\<not> has_tsconfig root_host ''/ws''"
    by (simp_all add: has_tsconfig_def accessible_def host_joins ws_joins, simp_all add: root_host_def)
  note t = C10_root_never_probed[of "dirname ''/ws/src/x.ts''" root_host "''/ws/src/x.ts''" Map.empty None "''@r/foo''"]
  have ne: "''/ws/src/x.ts'' \<noteq> []" by simp
  have em: "Map.empty (dirname ''/ws/src/x.ts'') = (None :: (paths_matcher \<times> bool) option option)" by simp
  from ne em only probed have pre: "''/ws/src/x.ts'' \<noteq> []
        \<and> Map.empty (dirname ''/ws/src/x.ts'') = (None :: (paths_matcher \<times> bool) option option)
        \<and> (\<forall>d. has_tsconfig root_host d
                \<longrightarrow> pathJoin root_host d ''tsconfig.json'' = pathJoin root_host ''/'' ''tsconfig.json'')
        \<and> (\<forall>d \<in> set (walked_dirs (dirname ''/ws/src/x.ts'')).
               pathJoin root_host d ''tsconfig.json'' \<noteq> pathJoin root_host ''/'' ''tsconfig.json'')"
    by (intro conjI)
  have ap: "abs_path ([''ws'', ''src''] @ [''x.ts'']) = ''/ws/src/x.ts''" by simp
  have pre2: "pathJoin root_host = posix_join \<and> (\<forall>seg \<in> set [''ws'', ''src'']. clean_segment seg)
        \<and> clean_segment ''x.ts''
        \<and> Map.empty (dirname (abs_path ([''ws'', ''src''] @ [''x.ts''])))
              = (None :: (paths_matcher \<times> bool) option option)
        \<and> (\<forall>d. has_tsconfig root_host d \<longrightarrow> pathJoin root_host d ''tsconfig.json'' = ''/tsconfig.json'')"
    using only by (simp add: host_joins ws_joins clean_segment_def)
  from C10_root_never_probed[where h = root_host and cache = Map.empty and tsconfigPathsMatcher = None
      and specifier = "''@r/bar''" and segs = "[''ws'', ''src'']" and leaf = "''x.ts''",
      THEN conjunct2, THEN conjunct2, THEN conjunct2, THEN conjunct2, THEN conjunct2, THEN conjunct2,
      THEN mp, OF pre2]
  have bar: "fst (dynamicPathsMatcher root_host None Map.empty ''@r/bar'' (Some ''/ws/src/x.ts'')) = Inr []"
    by (simp only: ap fst_conv)
  from t[THEN conjunct2, THEN conjunct2, THEN conjunct2, THEN conjunct2, THEN conjunct2, THEN conjunct1,
      THEN mp, OF pre]
  have "dynamicPathsMatcher root_host None Map.empty ''@r/foo'' (Some ''/ws/src/x.ts'')
              = (Inr [], Map.empty(dirname ''/ws/src/x.ts'' \<mapsto> None))" .
  moreover from t have "find_tsconfig root_host (dirname ''/ws/src/x.ts'') =
       (case List.find (has_tsconfig root_host) (walked_dirs (dirname ''/ws/src/x.ts'')) of
          None \<Rightarrow> None
        | Some d \<Rightarrow> Some (pathJoin root_host d ''tsconfig.json''))" by blast
  ultimately show ?thesis using r d w n ap bar by (simp add: host_joins ws_joins)
qed

section \<open>\<open>resolveTsPaths\<close>: the alias step\<close>

text \<open>
  The workspace again, now with the values \<open>path-utils.js\<close> gives on a POSIX system
  and a host resolver \<open>ws_resolve\<close> that knows the one file \<open>/ws/src/foo.ts\<close>.
  \<open>fileURLToPath\<close> is given for the URLs of the example, which have an empty host and
  no escape, query or fragment.
\<close>

definition posix_utils :: path_utils where
  "posix_utils =
     \<lparr>isFilePath = (\<lambda>s. startsWith s ''/'' \<or> startsWith s ''./'' \<or> startsWith s ''../''),
      fileUrlPrefix = ''file://'',
      nodeModulesPath = ''/node_modules/'',
      fileURLToPath = (\<lambda>url. if startsWith url ''file:///'' then Inr (drop 7 url)
                              else Inl (TypeError ''ERR_INVALID_FILE_URL_HOST''))\<rparr>"

definition ws_resolve :: simple_resolve where
  "ws_resolve request =
     (if request = ''/ws/src/foo'' then Inr ''/ws/src/foo.ts''
      else if request = ''/ws/src/foo.ts'' then Inr ''/ws/src/foo.ts''
      else Inl (ModuleNotFound request))"

lemma try_paths_first:
  "i < length ps \<Longrightarrow> nextResolve (ps ! i) = Inr p \<Longrightarrow> (\<forall>j<i. \<exists>e. nextResolve (ps ! j) = Inl e)
     \<Longrightarrow> try_paths nextResolve ps = Some p"
proof (induction ps arbitrary: i)
  case Nil
  then show ?case by simp
next
  case (Cons a ps)
  show ?case
  proof (cases i)
    case 0
    with Cons.prems show ?thesis by simp
  next
    case (Suc k)
    with Cons.prems have "\<exists>e. nextResolve a = Inl e" by auto
    moreover from Suc Cons.prems have "try_paths nextResolve ps = Some p"
      by (intro Cons.IH[of k]) auto
    ultimately show ?thesis by auto
  qed
qed

lemma try_paths_none:
  "(\<forall>c \<in> set ps. \<exists>e. nextResolve c = Inl e) \<Longrightarrow> try_paths nextResolve ps = None"
  by (induction ps) auto

lemma resolveTsPaths_alias:
  assumes "\<not> startsWith request (fileUrlPrefix u)" "\<not> isFilePath u request"
    and "filename \<noteq> []" "\<not> str_includes filename (nodeModulesPath u)"
    and "dynamicPathsMatcher h g cache request (Some filename) = (Inr dyn, cache')"
  shows "resolveTsPaths u h g cache request (Some filename) nextResolve =
     (case try_paths nextResolve (if dyn \<noteq> [] then dyn else case g of Some m \<Rightarrow> m request | None \<Rightarrow> []) of
        Some resolved \<Rightarrow> (Inr resolved, cache')
      | None \<Rightarrow> (nextResolve request, cache'))"
  using assms
  by (auto simp: resolveTsPaths_def in_node_modules_def possible_paths_def split: option.splits)

lemma resolveTsPaths_node_modules:
  assumes "in_node_modules u parent"
  shows "resolveTsPaths u h g cache request parent nextResolve =
     ((case (if startsWith request (fileUrlPrefix u) then fileURLToPath u request else Inr request) of
         Inl err \<Rightarrow> Inl err
       | Inr converted \<Rightarrow> nextResolve converted), cache)"
  using assms by (auto simp: resolveTsPaths_def split: sum.splits)

lemma dirname_dep: "dirname ''/ws/node_modules/dep/index.js'' = ''/ws/node_modules/dep''"
  by code_simp

lemma walked_dep: "walked_dirs ''/ws/node_modules/dep'' = [''/ws/node_modules/dep'', ''/ws/node_modules'', ''/ws'']"
  by code_simp

lemma in_nm: "in_node_modules posix_utils (Some ''/ws/node_modules/dep/index.js'')"
  by (simp add: in_node_modules_def posix_utils_def startsWith_def)

lemma dyn_dep:
  "fst (dynamicPathsMatcher ws_host (Some matcher_a) Map.empty ''@a/foo'' (Some ''/ws/node_modules/dep/index.js''))
     = Inr [''/ws/src/foo'']"
  by (simp add: dynamicPathsMatcher_def dynamic_lookup_def dirname_dep find_tsconfig_walk walked_dep
      has_tsconfig_def accessible_def host_joins ws_joins load_matcher_def Let_def,
      simp add: ws_host_def matcher_a_def startsWith_def)

lemma dirname_bx: "dirname ''/ws/packages/b/src/x.ts'' = ''/ws/packages/b/src''"
  by code_simp

lemma dyn_b:
  "dynamicPathsMatcher ws_host (Some matcher_a) Map.empty ''@a/foo'' (Some ''/ws/packages/b/src/x.ts'')
     = (Inr [], Map.empty(''/ws/packages/b/src'' \<mapsto> Some (matcher_b, True)))"
  by (simp add: dynamicPathsMatcher_def dynamic_lookup_def dirname_bx find_tsconfig_walk walked_b
      has_tsconfig_def accessible_def host_joins ws_joins load_matcher_def Let_def,
      simp add: ws_host_def matcher_b_def startsWith_def config_b_def)

text \<open>
  C5, as stated, fails for a parent inside \<open>node_modules\<close>: the dynamic matcher would
  give a candidate that resolves, but \<open>resolveTsPaths\<close> skips the alias step and
  resolves the bare request as it is.
\<close>

theorem C5_counterexample:
  "\<not> isFilePath posix_utils ''@a/foo''
   \<and> fst (dynamicPathsMatcher ws_host (Some matcher_a) Map.empty ''@a/foo'' (Some ''/ws/node_modules/dep/index.js''))
       = Inr [''/ws/src/foo'']
   \<and> ws_resolve ''/ws/src/foo'' = Inr ''/ws/src/foo.ts''
   \<and> fst (resolveTsPaths posix_utils ws_host (Some matcher_a) Map.empty ''@a/foo''
            (Some ''/ws/node_modules/dep/index.js'') ws_resolve) = Inl (ModuleNotFound ''@a/foo'')"
proof -
  have "\<not> isFilePath posix_utils ''@a/foo''" by (simp add: posix_utils_def startsWith_def)
  moreover have "ws_resolve ''/ws/src/foo'' = Inr ''/ws/src/foo.ts''" by (simp add: ws_resolve_def)
  moreover have "fst (resolveTsPaths posix_utils ws_host (Some matcher_a) Map.empty ''@a/foo''
            (Some ''/ws/node_modules/dep/index.js'') ws_resolve) = Inl (ModuleNotFound ''@a/foo'')"
    using in_nm by (simp add: resolveTsPaths_def ws_resolve_def posix_utils_def startsWith_def)
  ultimately show ?thesis using dyn_dep by simp
qed

text \<open>
  C5, amended. For a bare request (not a file URL, not a file path) whose parent has
  a filename outside \<open>node_modules\<close>: the candidates are those of the dynamic matcher,
  and those of the global matcher only when the dynamic matcher gives none; the
  result is the resolution of the first candidate, in order, that \<open>nextResolve\<close>
  resolves, the failures before it being dropped; and when no candidate resolves, it
  is \<open>nextResolve\<close> of the request itself.
\<close>

theorem C5_alias_resolution_order:
  assumes "\<not> startsWith request (fileUrlPrefix u)" "\<not> isFilePath u request"
    and "filename \<noteq> []" "\<not> str_includes filename (nodeModulesPath u)"
    and "dynamicPathsMatcher h g cache request (Some filename) = (Inr dyn, cache')"
    and "candidates = (if dyn \<noteq> [] then dyn else case g of Some m \<Rightarrow> m request | None \<Rightarrow> [])"
  shows "(\<forall>i p. i < length candidates \<and> nextResolve (candidates ! i) = Inr p
              \<and> (\<forall>j<i. \<exists>e. nextResolve (candidates ! j) = Inl e)
            \<longrightarrow> resolveTsPaths u h g cache request (Some filename) nextResolve = (Inr p, cache'))
       \<and> ((\<forall>c \<in> set candidates. \<exists>e. nextResolve c = Inl e)
            \<longrightarrow> resolveTsPaths u h g cache request (Some filename) nextResolve
                  = (nextResolve request, cache'))"
proof (intro conjI allI impI)
  fix i p
  assume "i < length candidates \<and> nextResolve (candidates ! i) = Inr p
              \<and> (\<forall>j<i. \<exists>e. nextResolve (candidates ! j) = Inl e)"
  then have "try_paths nextResolve candidates = Some p" by (auto intro: try_paths_first)
  then show "resolveTsPaths u h g cache request (Some filename) nextResolve = (Inr p, cache')"
    using resolveTsPaths_alias[OF assms(1-5)] assms(6) by simp
next
  assume "\<forall>c \<in> set candidates. \<exists>e. nextResolve c = Inl e"
  then have "try_paths nextResolve candidates = None" by (rule try_paths_none)
  then show "resolveTsPaths u h g cache request (Some filename) nextResolve = (nextResolve request, cache')"
    using resolveTsPaths_alias[OF assms(1-5)] assms(6) by simp
qed

theorem C5_alias_resolution_order_witness:
  "fst (resolveTsPaths posix_utils ws_host (Some matcher_a) Map.empty ''@a/foo''
          (Some ''/ws/packages/b/src/x.ts'') ws_resolve) = Inr ''/ws/src/foo.ts''
   \<and> fst (resolveTsPaths posix_utils ws_host (Some matcher_a) Map.empty ''@a/foo''
          (Some ''/ws/packages/b/src/x.ts'') (\<lambda>r. Inl (ModuleNotFound r))) = Inl (ModuleNotFound ''@a/foo'')"
proof -
  have a: "\<not> startsWith ''@a/foo'' (fileUrlPrefix posix_utils)" "\<not> isFilePath posix_utils ''@a/foo''"
    "''/ws/packages/b/src/x.ts'' \<noteq> []"
    "\<not> str_includes ''/ws/packages/b/src/x.ts'' (nodeModulesPath posix_utils)"
    by (simp_all add: posix_utils_def startsWith_def)
  have c: "[''/ws/src/foo''] = (if ([] :: string list) \<noteq> [] then [] else case Some matcher_a of Some m \<Rightarrow> m ''@a/foo'' | None \<Rightarrow> [])"
    by (simp add: matcher_a_def startsWith_def)
  note t = C5_alias_resolution_order[OF a dyn_b c]
  have "0 < length [''/ws/src/foo''] \<and> ws_resolve ([''/ws/src/foo''] ! 0) = Inr ''/ws/src/foo.ts''
       \<and> (\<forall>j<0. \<exists>e. ws_resolve ([''/ws/src/foo''] ! j) = Inl e)"
    by (simp add: ws_resolve_def)
  with t[of ws_resolve, THEN conjunct1] have
    "resolveTsPaths posix_utils ws_host (Some matcher_a) Map.empty ''@a/foo''
          (Some ''/ws/packages/b/src/x.ts'') ws_resolve
       = (Inr ''/ws/src/foo.ts'', Map.empty(''/ws/packages/b/src'' \<mapsto> Some (matcher_b, True)))"
    by blast
  moreover have "\<forall>c \<in> set [''/ws/src/foo'']. \<exists>e. (\<lambda>r. Inl (ModuleNotFound r) :: tsx_error + string) c = Inl e"
    by simp
  with t[of "\<lambda>r. Inl (ModuleNotFound r)", THEN conjunct2] have
    "resolveTsPaths posix_utils ws_host (Some matcher_a) Map.empty ''@a/foo''
          (Some ''/ws/packages/b/src/x.ts'') (\<lambda>r. Inl (ModuleNotFound r))
       = (Inl (ModuleNotFound ''@a/foo''), Map.empty(''/ws/packages/b/src'' \<mapsto> Some (matcher_b, True)))"
    by blast
  ultimately show ?thesis by simp
qed

text \<open>
  C9, as stated, fails for a request given as a file URL: \<open>resolveTsPaths\<close> converts it
  to a path first, and the result is \<open>nextResolve\<close> of the path, not of the request.
\<close>

theorem C9_counterexample:
  "in_node_modules posix_utils (Some ''/ws/node_modules/dep/index.js'')
   \<and> fst (resolveTsPaths posix_utils ws_host (Some matcher_a) Map.empty ''file:///ws/src/foo.ts''
            (Some ''/ws/node_modules/dep/index.js'') ws_resolve) = Inr ''/ws/src/foo.ts''
   \<and> ws_resolve ''file:///ws/src/foo.ts'' = Inl (ModuleNotFound ''file:///ws/src/foo.ts'')"
  using in_nm by (simp add: resolveTsPaths_def ws_resolve_def posix_utils_def startsWith_def)

text \<open>
  C9, amended. For a parent inside \<open>node_modules\<close>, \<open>resolveTsPaths\<close> does no alias
  resolution: the result is \<open>nextResolve\<close> of the request after the file-protocol
  conversion (or the exception of that conversion), which is \<open>nextResolve(request)\<close>
  for every request that is not a file URL; the tsconfig cache is left as it was; and
  the result is the same for every tsconfig host and every global matcher.
\<close>

theorem C9_node_modules_no_alias:
  "(in_node_modules u parent \<longrightarrow>
      resolveTsPaths u h g cache request parent nextResolve =
        ((case (if startsWith request (fileUrlPrefix u) then fileURLToPath u request else Inr request) of
            Inl err \<Rightarrow> Inl err
          | Inr converted \<Rightarrow> nextResolve converted), cache))
   \<and> (in_node_modules u parent \<and> \<not> startsWith request (fileUrlPrefix u) \<longrightarrow>
      resolveTsPaths u h g cache request parent nextResolve = (nextResolve request, cache))
   \<and> (in_node_modules u parent \<longrightarrow>
      resolveTsPaths u h' g' cache request parent nextResolve
        = resolveTsPaths u h g cache request parent nextResolve)"
  by (simp add: resolveTsPaths_node_modules)

theorem C9_node_modules_no_alias_witness:
  "in_node_modules posix_utils (Some ''/ws/node_modules/dep/index.js'')
   \<and> \<not> startsWith ''@a/foo'' (fileUrlPrefix posix_utils)
   \<and> resolveTsPaths posix_utils ws_host (Some matcher_a) Map.empty ''@a/foo''
        (Some ''/ws/node_modules/dep/index.js'') ws_resolve = (Inl (ModuleNotFound ''@a/foo''), Map.empty)
   \<and> resolveTsPaths posix_utils root_host None Map.empty ''@a/foo''
        (Some ''/ws/node_modules/dep/index.js'') ws_resolve
      = resolveTsPaths posix_utils ws_host (Some matcher_a) Map.empty ''@a/foo''
        (Some ''/ws/node_modules/dep/index.js'') ws_resolve"
proof -
  have s: "\<not> startsWith ''@a/foo'' (fileUrlPrefix posix_utils)"
    by (simp add: posix_utils_def startsWith_def)
  note t = C9_node_modules_no_alias[of posix_utils "Some ''/ws/node_modules/dep/index.js''" ws_host
      "Some matcher_a" Map.empty "''@a/foo''" ws_resolve root_host None]
  from t in_nm s have "resolveTsPaths posix_utils ws_host (Some matcher_a) Map.empty ''@a/foo''
        (Some ''/ws/node_modules/dep/index.js'') ws_resolve = (ws_resolve ''@a/foo'', Map.empty)"
    by blast
  moreover from t in_nm have "resolveTsPaths posix_utils root_host None Map.empty ''@a/foo''
        (Some ''/ws/node_modules/dep/index.js'') ws_resolve
      = resolveTsPaths posix_utils ws_host (Some matcher_a) Map.empty ''@a/foo''
        (Some ''/ws/node_modules/dep/index.js'') ws_resolve" by blast
  ultimately show ?thesis using in_nm s by (simp add: ws_resolve_def)
qed

section \<open>Enum extraction: failures\<close>

lemma unsupported_initializer:
  assumes "(\<exists>s e. init = MemberExpression s e) \<or> (\<exists>t. init = OtherExpression t)
      \<or> (\<exists>operator arg. init = UnaryExpression operator arg \<and> (\<forall>v. arg \<noteq> Literal v))"
  shows "\<exists>err. initializer_value h content defs init = Inl err"
proof -
  { fix operator arg assume "\<forall>v. arg \<noteq> Literal v"
    then have "\<exists>err. initializer_value h content defs (UnaryExpression operator arg) = Inl err"
      by (cases arg) auto }
  with assms show ?thesis by auto
qed

lemma process_member_fails:
  assumes "(\<exists>i. init = Some i \<and> ((\<exists>s e. i = MemberExpression s e) \<or> (\<exists>t. i = OtherExpression t)
                \<or> (\<exists>operator arg. i = UnaryExpression operator arg \<and> (\<forall>v. arg \<noteq> Literal v))))
      \<or> (init = None \<and> (\<exists>v. l = Some v \<and> (\<forall>n. v \<noteq> Num n) \<and> (\<forall>s. v \<noteq> Dbl s)))"
  shows "\<exists>err. process_member h content eid (l, ms, defs) (TSEnumMember k init) = Inl err"
proof -
  from assms consider
    (shape) i where "init = Some i"
      "(\<exists>s e. i = MemberExpression s e) \<or> (\<exists>t. i = OtherExpression t)
         \<or> (\<exists>operator arg. i = UnaryExpression operator arg \<and> (\<forall>v. arg \<noteq> Literal v))"
  | (increment) v where "init = None" "l = Some v" "\<forall>n. v \<noteq> Num n" "\<forall>s. v \<noteq> Dbl s"
    by blast
  then show ?thesis
  proof cases
    case shape
    from unsupported_initializer[OF shape(2)] obtain err where
      "initializer_value h content defs i = Inl err" by blast
    with shape(1) show ?thesis by (simp add: Let_def)
  next
    case increment
    then show ?thesis by (cases v) (auto simp: Let_def)
  qed
qed

lemma failing_enum_fails_body:
  assumes "process_body h content empty_result pre = Inr acc"
    and "process_members h content eid (None, [], enum_defines acc) es1 = Inr (l, ms, defs)"
    and "process_member h content eid (l, ms, defs) e = Inl err"
  shows "process_body h content empty_result
           (pre @ ExportNamedDeclaration (Some (TSEnumDeclaration True eid (es1 @ e # es2))) # post)
         = Inl err"
  using assms by (simp add: process_body_append process_members_append)

lemma extract_failure_cached:
  assumes "cache f = None" "extract_enums h f = Inl err"
  shows "parseConstEnumsFromAST h cache f = (empty_result, cache(f \<mapsto> empty_result))"
  using assms by (simp add: parseConstEnumsFromAST_def)


lemma enum_A_value:
  "process_body h content empty_result [enum_A]
     = Inr \<lparr>declarations = [\<lparr>enum_id = ''A'', members = [\<lparr>name = ''X'', val = Num 1\<rparr>]\<rparr>],
            enum_defines = [(''A.X'', Num 1)]\<rparr>"
  by (simp add: enum_A_def empty_result_def saveValue_def Let_def)

lemma demo_bad_extract: "\<exists>err. extract_enums demo_host ''/p/bad.ts'' = Inl err"
proof -
  have "extract_enums demo_host ''/p/bad.ts'' = process_body demo_host bad_source empty_result bad_body"
    by (rule extract_enums_body[where errs = "[]"])
       (simp_all add: demo_lang isTs_ts, simp_all add: demo_host_def demo_files_def demo_trees_def
          parsed_def lib_source_def bad_source_def)
  moreover have "\<exists>err. process_body demo_host bad_source empty_result bad_body = Inl err"
    by (simp add: bad_body_def enum_A_def empty_result_def saveValue_def Let_def)
  ultimately show ?thesis by simp
qed

text \<open>
  C2, as stated, fails: \<open>/p/bad.ts\<close> declares \<open>A { X = 1 }\<close>, which extracts well on
  its own, and then \<open>B\<close> with an unsupported initializer; the entry returned for the
  file has no declaration and no define, \<open>A\<close> included.
\<close>

theorem C2_counterexample:
  "process_body demo_host bad_source empty_result [hd bad_body]
     = Inr \<lparr>declarations = [\<lparr>enum_id = ''A'', members = [\<lparr>name = ''X'', val = Num 1\<rparr>]\<rparr>],
            enum_defines = [(''A.X'', Num 1)]\<rparr>
   \<and> declarations (fst (parseConstEnumsFromAST demo_host Map.empty ''/p/bad.ts'')) = []
   \<and> enum_defines (fst (parseConstEnumsFromAST demo_host Map.empty ''/p/bad.ts'')) = []"
proof -
  from demo_bad_extract obtain err where "extract_enums demo_host ''/p/bad.ts'' = Inl err" by blast
  then have "parseConstEnumsFromAST demo_host Map.empty ''/p/bad.ts''
      = (empty_result, [''/p/bad.ts'' \<mapsto> empty_result])"
    by (simp add: extract_failure_cached)
  moreover have "hd bad_body = enum_A" by (simp add: bad_body_def)
  then have "process_body demo_host bad_source empty_result [hd bad_body]
     = Inr \<lparr>declarations = [\<lparr>enum_id = ''A'', members = [\<lparr>name = ''X'', val = Num 1\<rparr>]\<rparr>],
            enum_defines = [(''A.X'', Num 1)]\<rparr>"
    by (simp only: enum_A_value)
  ultimately show ?thesis by (simp add: empty_result_def)
qed

text \<open>
  C2, amended. An unsupported initializer shape (a node that is no literal, binary
  or unary expression, or a unary expression over a non-literal), or a member with no
  initializer after a non-numeric value, aborts the extraction of the whole file:
  the exception reaches the one \<open>catch\<close> of \<open>parseConstEnumsFromAST\<close>, and the entry
  returned and cached for the file is empty, whatever enums the file declares before
  or after the failing one.
\<close>

theorem C2_failure_discards_file:
  assumes "cache f = None" "existsSync h f" "readFileSync h f = Inr content" "isTs (getLang h f)"
    and "parseSync h f content (parse_lang (getLang h f)) (parse_astType (getLang h f))
           = Inr \<lparr>program = pre @ ExportNamedDeclaration (Some (TSEnumDeclaration True eid
                                    (es1 @ TSEnumMember k init # es2))) # post,
                   errors = errs\<rparr>"
    and "process_body h content empty_result pre = Inr acc"
    and "process_members h content eid (None, [], enum_defines acc) es1 = Inr (l, ms, defs)"
    and "(\<exists>i. init = Some i \<and> ((\<exists>s e. i = MemberExpression s e) \<or> (\<exists>t. i = OtherExpression t)
                \<or> (\<exists>operator arg. i = UnaryExpression operator arg \<and> (\<forall>v. arg \<noteq> Literal v))))
      \<or> (init = None \<and> (\<exists>v. l = Some v \<and> (\<forall>n. v \<noteq> Num n) \<and> (\<forall>s. v \<noteq> Dbl s)))"
  shows "parseConstEnumsFromAST h cache f = (empty_result, cache(f \<mapsto> empty_result))"
proof -
  from process_member_fails[OF assms(8)] obtain err where
    "process_member h content eid (l, ms, defs) (TSEnumMember k init) = Inl err" by blast
  from failing_enum_fails_body[OF assms(6,7) this]
  have "extract_enums h f = Inl err"
    using extract_enums_body[OF assms(2,3,4,5)] by simp
  with assms(1) show ?thesis by (simp add: extract_failure_cached[of cache f h err])
qed

theorem C2_failure_discards_file_witness:
  "process_body demo_host str_source empty_result [enum_A]
     = Inr \<lparr>declarations = [\<lparr>enum_id = ''A'', members = [\<lparr>name = ''X'', val = Num 1\<rparr>]\<rparr>],
            enum_defines = [(''A.X'', Num 1)]\<rparr>
   \<and> fst (parseConstEnumsFromAST demo_host Map.empty ''/p/str.ts'') = empty_result
   \<and> snd (parseConstEnumsFromAST demo_host Map.empty ''/p/str.ts'') ''/p/str.ts'' = Some empty_result"
proof -
  have f: "Map.empty ''/p/str.ts'' = (None :: EnumData option)" "existsSync demo_host ''/p/str.ts''"
    "readFileSync demo_host ''/p/str.ts'' = Inr str_source" "isTs (getLang demo_host ''/p/str.ts'')"
    by (simp_all add: demo_lang isTs_ts, simp_all add: demo_host_def demo_files_def)
  have p: "parseSync demo_host ''/p/str.ts'' str_source (parse_lang (getLang demo_host ''/p/str.ts''))
             (parse_astType (getLang demo_host ''/p/str.ts''))
           = Inr \<lparr>program = [enum_A] @ ExportNamedDeclaration (Some (TSEnumDeclaration True ''S''
                ([TSEnumMember (Identifier ''P'') (Some (Literal (Str ''a'')))]
                  @ TSEnumMember (Identifier ''Q'') None # []))) # [],
                errors = []\<rparr>"
    by (simp add: demo_host_def demo_trees_def parsed_def str_body_def lib_source_def bad_source_def
        str_source_def)
  have m: "process_members demo_host str_source ''S'' (None, [],
             enum_defines \<lparr>declarations = [\<lparr>enum_id = ''A'', members = [\<lparr>name = ''X'', val = Num 1\<rparr>]\<rparr>],
                enum_defines = [(''A.X'', Num 1)]\<rparr>)
             [TSEnumMember (Identifier ''P'') (Some (Literal (Str ''a'')))]
           = Inr (Some (Str ''a''), [\<lparr>name = ''P'', val = Str ''a''\<rparr>], [(''A.X'', Num 1), (''S.P'', Str ''a'')])"
    by (simp add: saveValue_def Let_def)
  have b: "(\<exists>i. (None :: expression option) = Some i \<and> ((\<exists>s e. i = MemberExpression s e) \<or> (\<exists>t. i = OtherExpression t)
                \<or> (\<exists>operator arg. i = UnaryExpression operator arg \<and> (\<forall>v. arg \<noteq> Literal v))))
      \<or> ((None :: expression option) = None \<and> (\<exists>v. Some (Str ''a'') = Some v \<and> (\<forall>n. v \<noteq> Num n) \<and> (\<forall>s. v \<noteq> Dbl s)))"
    by simp
  from C2_failure_discards_file[OF f p enum_A_value m b]
  have "parseConstEnumsFromAST demo_host Map.empty ''/p/str.ts''
          = (empty_result, [''/p/str.ts'' \<mapsto> empty_result])" .
  then show ?thesis by (simp add: enum_A_value del: process_body.simps)
qed



section \<open>The transform when there is nothing to inline\<close>

















section \<open>Running the transform twice\<close>









section \<open>\<open>resolveFilename\<close> and the host resolver\<close>








end
